theory Spec2Isabelle
  imports Main
begin

section \<open>Insertion-ordered maps\<close>

text \<open>
  A JavaScript \<open>Map\<close> iterates in insertion order: \<open>set\<close> on a new key appends the
  entry, \<open>set\<close> on a key already present replaces the value where the entry stands.
  It is modelled as an association list with that discipline, so that the order
  \<open>values()\<close> yields is part of the model.
\<close>

type_synonym ('k, 'v) js_map = "('k \<times> 'v) list"

definition Map_get :: "('k, 'v) js_map \<Rightarrow> 'k \<Rightarrow> 'v option" where
  "Map_get m k = map_of m k"

fun Map_set :: "('k, 'v) js_map \<Rightarrow> 'k \<Rightarrow> 'v \<Rightarrow> ('k, 'v) js_map" where
  "Map_set [] k v = [(k, v)]"
| "Map_set ((k', v') # m) k v =
     (if k' = k then (k, v) # m else (k', v') # Map_set m k v)"

definition Map_values :: "('k, 'v) js_map \<Rightarrow> 'v list" where
  "Map_values m = map snd m"

definition Map_size :: "('k, 'v) js_map \<Rightarrow> nat" where
  "Map_size m = length m"

section \<open>Alias registry (src/lib/model-normalization.ts)\<close>

text \<open>
  The table \<open>modelAliases\<close>, in the order \<open>Object.entries\<close> lists it. The lookup
  \<open>modelAliases[modelId]\<close> is read on the table's own keys: a model id that names a
  member every JavaScript object inherits (\<open>constructor\<close>, \<open>toString\<close>, ...) is outside
  the model.
\<close>

definition modelAliases :: "(string \<times> string) list" where
  "modelAliases =
     [(''claude-opus-4-6[1M]'', ''claude-opus-4.6-1m''),
      (''claude-opus-4-6'', ''claude-opus-4.6-1m''),
      (''claude-sonnet-4-6'', ''claude-sonnet-4.6''),
      (''claude-haiku-4-5'', ''claude-haiku-4.5'')]"

text \<open>
  The module-level loop that fills \<open>reverseModelAliases\<close>: for each entry the list
  registered for the canonical name (or the empty list) gets the alias pushed and is
  stored back.
\<close>

definition reverseModelAliases_step ::
  "(string, string list) js_map \<Rightarrow> string \<times> string \<Rightarrow> (string, string list) js_map" where
  "reverseModelAliases_step m e =
     (case e of (alias, canonical) \<Rightarrow>
        Map_set m canonical
          ((case Map_get m canonical of None \<Rightarrow> [] | Some aliases \<Rightarrow> aliases) @ [alias]))"

definition reverseModelAliases :: "(string, string list) js_map" where
  "reverseModelAliases = foldl reverseModelAliases_step [] modelAliases"

definition normalizeModelName :: "string \<Rightarrow> string" where
  "normalizeModelName modelId =
     (case map_of modelAliases modelId of Some canonical \<Rightarrow> canonical | None \<Rightarrow> modelId)"

definition getModelAliases :: "string \<Rightarrow> string list" where
  "getModelAliases modelId =
     (case Map_get reverseModelAliases modelId of Some aliases \<Rightarrow> aliases | None \<Rightarrow> [])"

text \<open>
  The inner loop of \<open>expandModelIdsWithAliases\<close> over the variants of one id; the state
  is the pair of \<open>expandedModelIds\<close> and \<open>seenModelIds\<close>.
\<close>

fun expand_variants ::
  "string list \<Rightarrow> string list \<times> string set \<Rightarrow> string list \<times> string set" where
  "expand_variants [] st = st"
| "expand_variants (variant # vs) (expandedModelIds, seenModelIds) =
     (if variant \<in> seenModelIds then expand_variants vs (expandedModelIds, seenModelIds)
      else expand_variants vs (expandedModelIds @ [variant], insert variant seenModelIds))"

text \<open>The outer loop over the input ids.\<close>

fun expand_ids ::
  "string list \<Rightarrow> string list \<times> string set \<Rightarrow> string list \<times> string set" where
  "expand_ids [] st = st"
| "expand_ids (modelId # modelIds) st =
     expand_ids modelIds (expand_variants (modelId # getModelAliases modelId) st)"

definition expandModelIdsWithAliases :: "string list \<Rightarrow> string list" where
  "expandModelIdsWithAliases modelIds = fst (expand_ids modelIds ([], {}))"

section \<open>Stream accumulator (src/routes/chat-completions/handler.ts)\<close>

subsection \<open>Parsed chunks\<close>

text \<open>
  \<open>JSON.parse(data) as ChatCompletionChunk\<close> checks nothing, so a parsed chunk is the
  interface \<open>ChatCompletionChunk\<close> with every field the accumulator reads optional:
  \<open>None\<close> is a field that is absent (or \<open>null\<close>), which JavaScript reads as a falsy
  \<open>undefined\<close>. A field that is present carries the type the interface declares. The
  fields no function reads (\<open>object\<close>, \<open>role\<close>, \<open>type\<close>, \<open>logprobs\<close>, the choice's
  \<open>index\<close>) are left out.
\<close>

datatype FinishReason = Stop | Length | Tool_calls | Content_filter

record usage =
  prompt_tokens :: int
  completion_tokens :: int
  total_tokens :: int
  cached_tokens :: "int option"
  prediction_tokens :: "(int \<times> int) option"

record function_delta =
  fd_name :: "string option"
  fd_arguments :: "string option"

record tool_call_delta =
  tcd_index :: int
  tcd_id :: "string option"
  tcd_function :: "function_delta option"

record delta =
  delta_content :: "string option"
  delta_tool_calls :: "tool_call_delta list option"

record choice =
  choice_finish_reason :: "FinishReason option"
  choice_delta :: "delta option"

record chunk =
  chunk_id :: "string option"
  chunk_model :: "string option"
  chunk_created :: "int option"
  chunk_system_fingerprint :: "string option"
  chunk_usage :: "usage option"
  chunk_choices :: "choice list option"

text \<open>
  What \<open>JSON.parse\<close> returns when it does not throw: a falsy value (\<open>null\<close>, \<open>false\<close>,
  \<open>0\<close>, the empty string), which \<open>if (!parsed) continue\<close> skips, or a truthy one, read
  as a chunk. \<open>JSON.parse\<close> itself belongs to the runtime and is a parameter
  \<open>JSON_parse\<close> of the functions below; \<open>None\<close> is a thrown \<open>SyntaxError\<close>.
\<close>

datatype json_value = Falsy | Truthy chunk

type_synonym json_parser = "string \<Rightarrow> json_value option"

record ServerSentEventMessage =
  sse_data :: "string option"

subsection \<open>Errors\<close>

record http_response =
  status :: nat
  body :: "ServerSentEventMessage list"

datatype error =
    TypeError
  | TokenNotFound
  | HTTPError http_response
  | Rejected string

subsection \<open>Accumulator state\<close>

record ToolCallFunction =
  fn_name :: string
  fn_arguments :: string

record ToolCallAccumulator =
  tc_id :: string
  tc_type :: string
  tc_function :: ToolCallFunction

record StreamAccumulator =
  acc_id :: string
  acc_model :: string
  acc_created :: int
  acc_systemFingerprint :: "string option"
  acc_finishReason :: FinishReason
  acc_content :: string
  acc_toolCalls :: "(int, ToolCallAccumulator) js_map"
  acc_usage :: "usage option"

text \<open>JavaScript truthiness of an optional string and of an optional number.\<close>

definition truthy_string :: "string option \<Rightarrow> bool" where
  "truthy_string x = (case x of None \<Rightarrow> False | Some s \<Rightarrow> s \<noteq> [])"

definition truthy_number :: "int option \<Rightarrow> bool" where
  "truthy_number x = (case x of None \<Rightarrow> False | Some n \<Rightarrow> n \<noteq> 0)"

text \<open>The operator \<open>x ?? d\<close>.\<close>

definition nullish_or :: "'a option \<Rightarrow> 'a \<Rightarrow> 'a" where
  "nullish_or x d = (case x of None \<Rightarrow> d | Some v \<Rightarrow> v)"

text \<open>\<open>delta.function?.name\<close> and \<open>delta.function?.arguments\<close>.\<close>

definition delta_function_name :: "tool_call_delta \<Rightarrow> string option" where
  "delta_function_name d = (case tcd_function d of None \<Rightarrow> None | Some f \<Rightarrow> fd_name f)"

definition delta_function_arguments :: "tool_call_delta \<Rightarrow> string option" where
  "delta_function_arguments d =
     (case tcd_function d of None \<Rightarrow> None | Some f \<Rightarrow> fd_arguments f)"

definition createAccumulator :: StreamAccumulator where
  "createAccumulator =
     \<lparr>acc_id = [], acc_model = [], acc_created = 0, acc_systemFingerprint = None,
      acc_finishReason = Stop, acc_content = [], acc_toolCalls = [], acc_usage = None\<rparr>"

definition parseChunkDataOrLog :: "json_parser \<Rightarrow> string option \<Rightarrow> json_value" where
  "parseChunkDataOrLog JSON_parse data =
     (case data of
        None \<Rightarrow> Falsy
      | Some s \<Rightarrow> (case JSON_parse s of None \<Rightarrow> Falsy | Some v \<Rightarrow> v))"

text \<open>
  One iteration of the loop of \<open>mergeToolCalls\<close>. The source mutates the entry it found
  in the map; the model stores the changed entry back under its key, which keeps its
  place in the insertion order.
\<close>

definition mergeToolCall ::
  "(int, ToolCallAccumulator) js_map \<Rightarrow> tool_call_delta \<Rightarrow> (int, ToolCallAccumulator) js_map" where
  "mergeToolCall toolCalls d =
     (case Map_get toolCalls (tcd_index d) of
        None \<Rightarrow>
          Map_set toolCalls (tcd_index d)
            \<lparr>tc_id = nullish_or (tcd_id d) [], tc_type = ''function'',
             tc_function =
               \<lparr>fn_name = nullish_or (delta_function_name d) [],
                fn_arguments = nullish_or (delta_function_arguments d) []\<rparr>\<rparr>
      | Some existing \<Rightarrow>
          Map_set toolCalls (tcd_index d)
            \<lparr>tc_id =
               (if tc_id existing = [] \<and> truthy_string (tcd_id d)
                then nullish_or (tcd_id d) [] else tc_id existing),
             tc_type = tc_type existing,
             tc_function =
               \<lparr>fn_name =
                  (if fn_name (tc_function existing) = [] \<and> truthy_string (delta_function_name d)
                   then nullish_or (delta_function_name d) []
                   else fn_name (tc_function existing)),
                fn_arguments =
                  (if truthy_string (delta_function_arguments d)
                   then fn_arguments (tc_function existing)
                          @ nullish_or (delta_function_arguments d) []
                   else fn_arguments (tc_function existing))\<rparr>\<rparr>)"

definition mergeToolCalls ::
  "(int, ToolCallAccumulator) js_map \<Rightarrow> tool_call_delta list \<Rightarrow> (int, ToolCallAccumulator) js_map" where
  "mergeToolCalls toolCalls deltas = foldl mergeToolCall toolCalls deltas"

text \<open>
  The latches and the usage overwrite are the first five statements of
  \<open>applyChunkToAccumulator\<close>; they run before \<open>parsed.choices.at(0)\<close>.
\<close>

definition applyHeader :: "chunk \<Rightarrow> StreamAccumulator \<Rightarrow> StreamAccumulator" where
  "applyHeader parsed acc =
     (let a1 = (if acc_id acc = [] \<and> truthy_string (chunk_id parsed)
                then acc\<lparr>acc_id := nullish_or (chunk_id parsed) []\<rparr> else acc);
          a2 = (if acc_model a1 = [] \<and> truthy_string (chunk_model parsed)
                then a1\<lparr>acc_model := nullish_or (chunk_model parsed) []\<rparr> else a1);
          a3 = (if acc_created a2 = 0 \<and> truthy_number (chunk_created parsed)
                then a2\<lparr>acc_created := nullish_or (chunk_created parsed) 0\<rparr> else a2);
          a4 = (if \<not> truthy_string (acc_systemFingerprint a3)
                     \<and> truthy_string (chunk_system_fingerprint parsed)
                then a3\<lparr>acc_systemFingerprint := chunk_system_fingerprint parsed\<rparr> else a3)
      in (case chunk_usage parsed of None \<Rightarrow> a4 | Some u \<Rightarrow> a4\<lparr>acc_usage := Some u\<rparr>))"

text \<open>
  \<open>parsed.choices.at(0)\<close> throws a \<open>TypeError\<close> when \<open>choices\<close> is absent, and so does
  \<open>choice.delta.content\<close> when the choice has no \<open>delta\<close>.
\<close>

definition applyChoice :: "choice \<Rightarrow> StreamAccumulator \<Rightarrow> error + StreamAccumulator" where
  "applyChoice c acc =
     (let a1 = (case choice_finish_reason c of
                  None \<Rightarrow> acc | Some r \<Rightarrow> acc\<lparr>acc_finishReason := r\<rparr>)
      in (case choice_delta c of
            None \<Rightarrow> Inl TypeError
          | Some d \<Rightarrow>
              (let a2 = (case delta_content d of
                           None \<Rightarrow> a1
                         | Some s \<Rightarrow> a1\<lparr>acc_content := acc_content a1 @ s\<rparr>)
               in (case delta_tool_calls d of
                     None \<Rightarrow> Inr a2
                   | Some deltas \<Rightarrow>
                       Inr (a2\<lparr>acc_toolCalls := mergeToolCalls (acc_toolCalls a2) deltas\<rparr>)))))"

definition applyChunkToAccumulator ::
  "chunk \<Rightarrow> StreamAccumulator \<Rightarrow> error + StreamAccumulator" where
  "applyChunkToAccumulator parsed acc =
     (let a = applyHeader parsed acc
      in (case chunk_choices parsed of
            None \<Rightarrow> Inl TypeError
          | Some [] \<Rightarrow> Inr a
          | Some (c # _) \<Rightarrow> applyChoice c a))"

subsection \<open>The response\<close>

record ResponseMessage =
  msg_role :: string
  msg_content :: "string option"
  msg_tool_calls :: "ToolCallAccumulator list option"

record ChoiceNonStreaming =
  cns_index :: nat
  cns_message :: ResponseMessage
  cns_finish_reason :: FinishReason

record ChatCompletionResponse =
  resp_id :: string
  resp_object :: string
  resp_created :: int
  resp_model :: string
  resp_choices :: "ChoiceNonStreaming list"
  resp_system_fingerprint :: "string option"
  resp_usage :: "usage option"

definition buildResponse :: "StreamAccumulator \<Rightarrow> ChatCompletionResponse" where
  "buildResponse acc =
     \<lparr>resp_id = acc_id acc,
      resp_object = ''chat.completion'',
      resp_created = acc_created acc,
      resp_model = acc_model acc,
      resp_choices =
        [\<lparr>cns_index = 0,
          cns_message =
            \<lparr>msg_role = ''assistant'',
             msg_content = (if acc_content acc = [] then None else Some (acc_content acc)),
             msg_tool_calls =
               (if Map_size (acc_toolCalls acc) > 0
                then Some (Map_values (acc_toolCalls acc)) else None)\<rparr>,
          cns_finish_reason = acc_finishReason acc\<rparr>],
      resp_system_fingerprint =
        (if truthy_string (acc_systemFingerprint acc) then acc_systemFingerprint acc else None),
      resp_usage = acc_usage acc\<rparr>"

subsection \<open>The fold\<close>

text \<open>
  The \<open>for await\<close> loop of \<open>collectStreamToResponse\<close> over the events the upstream
  delivered, as a finite list: an event with no data is skipped, the sentinel ends the
  loop, a chunk that fails to parse is skipped, and an exception thrown by
  \<open>applyChunkToAccumulator\<close> leaves the loop and the function.
\<close>

fun collect_loop ::
  "json_parser \<Rightarrow> ServerSentEventMessage list \<Rightarrow> StreamAccumulator \<Rightarrow> error + StreamAccumulator" where
  "collect_loop JSON_parse [] acc = Inr acc"
| "collect_loop JSON_parse (ev # stream) acc =
     (if \<not> truthy_string (sse_data ev) then collect_loop JSON_parse stream acc
      else if sse_data ev = Some ''[DONE]'' then Inr acc
      else (case parseChunkDataOrLog JSON_parse (sse_data ev) of
              Falsy \<Rightarrow> collect_loop JSON_parse stream acc
            | Truthy parsed \<Rightarrow>
                (case applyChunkToAccumulator parsed acc of
                   Inl e \<Rightarrow> Inl e
                 | Inr acc' \<Rightarrow> collect_loop JSON_parse stream acc')))"

definition collectStreamToResponse ::
  "json_parser \<Rightarrow> ServerSentEventMessage list \<Rightarrow> error + ChatCompletionResponse" where
  "collectStreamToResponse JSON_parse stream =
     (case collect_loop JSON_parse stream createAccumulator of
        Inl e \<Rightarrow> Inl e
      | Inr acc \<Rightarrow> Inr (buildResponse acc))"

section \<open>Upstream relay (services/copilot/create-chat-completions)\<close>

subsection \<open>Requests\<close>

datatype Role = User | Assistant | System | Tool | Developer

datatype ContentPart = TextPart string | ImagePart string

datatype Content = ContentString string | ContentParts "ContentPart list" | ContentNull

record Message =
  msg_role_of :: Role
  msg_content_of :: Content

text \<open>
  The payload with the fields the relay and the handler read or write; the other
  generation parameters travel in \<open>p_params\<close>, which nothing touches. \<open>p_stream = None\<close>
  is a \<open>stream\<close> flag that is absent or \<open>null\<close>.
\<close>

record ChatCompletionsPayload =
  p_messages :: "Message list"
  p_model :: string
  p_max_tokens :: "int option"
  p_stream :: "bool option"
  p_params :: "(string \<times> string) list"

record http_request =
  req_url :: string
  req_method :: string
  req_headers :: "(string, string) js_map"
  req_body :: ChatCompletionsPayload

subsection \<open>Process-wide state and the outside world\<close>

text \<open>The fields of \<open>state\<close> (lib/state) that the code under study reads.\<close>

record Model =
  m_id :: string
  m_vendor :: string
  m_name :: string
  m_max_output_tokens :: "int option"

record state =
  copilotToken :: "string option"
  models :: "Model list option"
  manualApprove :: bool

text \<open>
  The calls that leave the process are recorded in a trace: an invocation of
  \<open>doFetch\<close>, a network request made by \<open>fetch\<close>, a call of
  \<open>refreshCopilotTokenOnError\<close>.
\<close>

datatype effect = Call_doFetch | Call_fetch http_request | Call_refresh

text \<open>
  The collaborators whose code is outside the repository's sources are parameters: the
  header and URL builders of lib/api-config, the network (\<open>fetch\<close>, whose answer may
  depend on everything that happened before, and which may throw),
  \<open>refreshCopilotTokenOnError\<close> of lib/token (it reports success and may replace the
  state's credential), the admission control, \<open>cacheModels\<close> and \<open>JSON.parse\<close>.
\<close>

record env =
  copilotHeaders :: "state \<Rightarrow> bool \<Rightarrow> (string, string) js_map"
  copilotBaseUrl :: "state \<Rightarrow> string"
  fetch :: "effect list \<Rightarrow> http_request \<Rightarrow> error + http_response"
  refreshCopilotTokenOnError :: "effect list \<Rightarrow> state \<Rightarrow> bool \<times> state"
  checkRateLimit :: "state \<Rightarrow> error option"
  awaitApproval :: "effect list \<Rightarrow> error option"
  cacheModels :: "state \<Rightarrow> error + state"
  runtime_JSON_parse :: json_parser

record world =
  w_state :: state
  w_trace :: "effect list"

definition emit :: "effect \<Rightarrow> world \<Rightarrow> world" where
  "emit e w = w\<lparr>w_trace := w_trace w @ [e]\<rparr>"

text \<open>\<open>response.ok\<close> of the Fetch API.\<close>

definition ok :: "http_response \<Rightarrow> bool" where
  "ok r = (200 \<le> status r \<and> status r \<le> 299)"

subsection \<open>doFetch\<close>

definition has_image :: "Message \<Rightarrow> bool" where
  "has_image x =
     (case msg_content_of x of
        ContentString _ \<Rightarrow> False
      | ContentNull \<Rightarrow> False
      | ContentParts parts \<Rightarrow>
          list_ex (\<lambda>part. case part of ImagePart _ \<Rightarrow> True | TextPart _ \<Rightarrow> False) parts)"

text \<open>The request \<open>doFetch\<close> hands to \<open>fetch\<close>.\<close>

definition doFetch_request ::
  "env \<Rightarrow> state \<Rightarrow> ChatCompletionsPayload \<Rightarrow> bool option \<Rightarrow> http_request" where
  "doFetch_request E st payload streamOverride =
     (let normalizedPayload = payload\<lparr>p_model := normalizeModelName (p_model payload)\<rparr>;
          enableVision = list_ex has_image (p_messages normalizedPayload);
          isAgentCall =
            list_ex (\<lambda>msg. msg_role_of msg \<in> set [Assistant, Tool]) (p_messages normalizedPayload);
          headers =
            Map_set (copilotHeaders E st enableVision) ''X-Initiator''
              (if isAgentCall then ''agent'' else ''user'');
          body' =
            (case streamOverride of
               Some s \<Rightarrow> normalizedPayload\<lparr>p_stream := Some s\<rparr>
             | None \<Rightarrow> normalizedPayload)
      in \<lparr>req_url = copilotBaseUrl E st @ ''/chat/completions'',
          req_method = ''POST'',
          req_headers = headers,
          req_body = body'\<rparr>)"

definition doFetch ::
  "env \<Rightarrow> ChatCompletionsPayload \<Rightarrow> bool option \<Rightarrow> world \<Rightarrow> (error + http_response) \<times> world" where
  "doFetch E payload streamOverride w0 =
     (let w = emit Call_doFetch w0
      in if \<not> truthy_string (copilotToken (w_state w)) then (Inl TokenNotFound, w)
         else (let req = doFetch_request E (w_state w) payload streamOverride
               in (fetch E (w_trace w) req, emit (Call_fetch req) w)))"

subsection \<open>createChatCompletionsStream\<close>

text \<open>The call of \<open>refreshCopilotTokenOnError\<close>, recorded in the trace.\<close>

definition refresh :: "env \<Rightarrow> world \<Rightarrow> bool \<times> world" where
  "refresh E w =
     (case refreshCopilotTokenOnError E (w_trace w) (w_state w) of
        (refreshed, st') \<Rightarrow> (refreshed, emit Call_refresh (w\<lparr>w_state := st'\<rparr>)))"

definition createChatCompletionsStream ::
  "env \<Rightarrow> ChatCompletionsPayload \<Rightarrow> world
     \<Rightarrow> (error + ServerSentEventMessage list) \<times> world" where
  "createChatCompletionsStream E payload w =
     (case doFetch E payload (Some True) w of
        (Inl e, w1) \<Rightarrow> (Inl e, w1)
      | (Inr response, w1) \<Rightarrow>
          (case (if status response = 401
                 then (case refresh E w1 of
                         (refreshed, w2) \<Rightarrow>
                           if refreshed then doFetch E payload (Some True) w2
                           else (Inr response, w2))
                 else (Inr response, w1)) of
             (Inl e, w3) \<Rightarrow> (Inl e, w3)
           | (Inr response', w3) \<Rightarrow>
               if \<not> ok response' then (Inl (HTTPError response'), w3)
               else (Inr (body response'), w3)))"

section \<open>Request handler (src/routes/chat-completions/handler.ts)\<close>

datatype client_response =
    StreamSSE "ServerSentEventMessage list"
  | Json ChatCompletionResponse

text \<open>
  \<open>handleCompletion\<close> from the parsed request body on. The token count is only logged
  and its failure is caught, so it is left out.
\<close>

definition handleCompletion ::
  "env \<Rightarrow> ChatCompletionsPayload \<Rightarrow> world \<Rightarrow> (error + client_response) \<times> world" where
  "handleCompletion E payload0 w =
     (case checkRateLimit E (w_state w) of
        Some e \<Rightarrow> (Inl e, w)
      | None \<Rightarrow>
          (let selectedModel =
                 find (\<lambda>m. m_id m = p_model payload0)
                   (case models (w_state w) of None \<Rightarrow> [] | Some ms \<Rightarrow> ms)
           in (case (if manualApprove (w_state w) then awaitApproval E (w_trace w) else None) of
                 Some e \<Rightarrow> (Inl e, w)
               | None \<Rightarrow>
                   (let payload =
                          (if p_max_tokens payload0 = None
                           then payload0\<lparr>p_max_tokens :=
                                  (case selectedModel of
                                     None \<Rightarrow> None
                                   | Some m \<Rightarrow> m_max_output_tokens m)\<rparr>
                           else payload0);
                        clientWantsStream = (p_stream payload = Some True)
                    in (case createChatCompletionsStream E payload w of
                          (Inl e, w') \<Rightarrow> (Inl e, w')
                        | (Inr response, w') \<Rightarrow>
                            if clientWantsStream then (Inr (StreamSSE response), w')
                            else (case collectStreamToResponse (runtime_JSON_parse E) response of
                                    Inl e \<Rightarrow> (Inl e, w')
                                  | Inr r \<Rightarrow> (Inr (Json r), w')))))))"

section \<open>Model listing (src/routes/models/route.ts)\<close>

record model_entry =
  entry_id :: string
  entry_object :: string
  entry_type :: string
  entry_created :: nat
  entry_created_at :: string
  entry_owned_by :: string
  entry_display_name :: string

record model_list =
  list_object :: string
  list_data :: "model_entry list"
  list_has_more :: bool

definition list_models :: "Model list \<Rightarrow> model_list" where
  "list_models catalog =
     (let modelById = foldl (\<lambda>m model. Map_set m (m_id model) model) [] catalog;
          modelIds = expandModelIdsWithAliases (map m_id catalog);
          entries =
            concat (map (\<lambda>modelId.
              (case Map_get modelById (normalizeModelName modelId) of
                 None \<Rightarrow> []
               | Some sourceModel \<Rightarrow>
                   [\<lparr>entry_id = modelId, entry_object = ''model'', entry_type = ''model'',
                     entry_created = 0, entry_created_at = ''1970-01-01T00:00:00.000Z'',
                     entry_owned_by = m_vendor sourceModel,
                     entry_display_name = m_name sourceModel\<rparr>])) modelIds)
      in \<lparr>list_object = ''list'', list_data = entries, list_has_more = False\<rparr>)"

text \<open>
  The handler of \<open>GET /\<close>: the catalog is fetched first when the state has none, and an
  exception is what \<open>forwardError\<close> gets.
\<close>

definition modelRoutes_get :: "env \<Rightarrow> state \<Rightarrow> (error + model_list) \<times> state" where
  "modelRoutes_get E st =
     (case (if models st = None then cacheModels E st else Inr st) of
        Inl e \<Rightarrow> (Inl e, st)
      | Inr st' \<Rightarrow>
          (Inr (list_models (case models st' of None \<Rightarrow> [] | Some ms \<Rightarrow> ms)), st'))"

section \<open>Specification vocabulary\<close>

text \<open>
  The sequence of first occurrences of a list, skipping what a set already holds: how
  the spec's "duplicate-free, preserving first-seen order" reads on lists.
\<close>

fun first_seen :: "'a list \<Rightarrow> 'a set \<Rightarrow> 'a list" where
  "first_seen [] seen = []"
| "first_seen (x # xs) seen =
     (if x \<in> seen then first_seen xs seen else x # first_seen xs (insert x seen))"

text \<open>
  "The id is immediately followed by its registered aliases": after the first
  occurrence of \<open>x\<close> in \<open>out\<close>, the next elements are the aliases of \<open>x\<close>, all of them
  and in the registry's order.
\<close>

definition followed_by_aliases :: "string list \<Rightarrow> string \<Rightarrow> bool" where
  "followed_by_aliases out x =
     (case dropWhile (\<lambda>y. y \<noteq> x) out of
        [] \<Rightarrow> False
      | _ # rest \<Rightarrow> take (length (getModelAliases x)) rest = getModelAliases x)"

text \<open>
  The chunks the loop of \<open>collectStreamToResponse\<close> hands to
  \<open>applyChunkToAccumulator\<close>, in order: events without data and events whose data does
  not parse to a truthy value are passed over, and nothing is read after the sentinel.
\<close>

fun consumed :: "json_parser \<Rightarrow> ServerSentEventMessage list \<Rightarrow> chunk list" where
  "consumed P [] = []"
| "consumed P (ev # stream) =
     (if \<not> truthy_string (sse_data ev) then consumed P stream
      else if sse_data ev = Some ''[DONE]'' then []
      else (case parseChunkDataOrLog P (sse_data ev) of
              Falsy \<Rightarrow> consumed P stream
            | Truthy parsed \<Rightarrow> parsed # consumed P stream))"

text \<open>Applying chunks one after the other; the first exception ends it.\<close>

fun apply_chunks :: "chunk list \<Rightarrow> StreamAccumulator \<Rightarrow> error + StreamAccumulator" where
  "apply_chunks [] acc = Inr acc"
| "apply_chunks (c # cs) acc =
     (case applyChunkToAccumulator c acc of
        Inl e \<Rightarrow> Inl e
      | Inr acc' \<Rightarrow> apply_chunks cs acc')"

text \<open>The tool-call fragments and the text delta a chunk carries in its first choice.\<close>

definition chunk_fragments :: "chunk \<Rightarrow> tool_call_delta list" where
  "chunk_fragments c =
     (case chunk_choices c of
        Some (ch # _) \<Rightarrow>
          (case choice_delta ch of
             Some d \<Rightarrow> (case delta_tool_calls d of Some ds \<Rightarrow> ds | None \<Rightarrow> [])
           | None \<Rightarrow> [])
      | _ \<Rightarrow> [])"

definition text_delta :: "chunk \<Rightarrow> string option" where
  "text_delta c =
     (case chunk_choices c of
        Some (ch # _) \<Rightarrow> (case choice_delta ch of Some d \<Rightarrow> delta_content d | None \<Rightarrow> None)
      | _ \<Rightarrow> None)"

text \<open>The chunk with another text in the delta of its first choice, all else equal.\<close>

definition with_content :: "chunk \<Rightarrow> string \<Rightarrow> chunk" where
  "with_content c s =
     (case chunk_choices c of
        Some (ch # rest) \<Rightarrow>
          (case choice_delta ch of
             Some d \<Rightarrow>
               c\<lparr>chunk_choices :=
                    Some (ch\<lparr>choice_delta := Some (d\<lparr>delta_content := Some s\<rparr>)\<rparr> # rest)\<rparr>
           | None \<Rightarrow> c)
      | _ \<Rightarrow> c)"

text \<open>All fragments a fold observes, in arrival order.\<close>

definition observed_fragments ::
  "json_parser \<Rightarrow> ServerSentEventMessage list \<Rightarrow> tool_call_delta list" where
  "observed_fragments P stream = concat (map chunk_fragments (consumed P stream))"

text \<open>
  What merging the fragments \<open>ds\<close> of one index into an entry \<open>e\<close> comes to: the id and
  the name are the entry's own unless empty, and then the first non-empty one among
  the fragments; the arguments are the entry's followed by the fragments', in order.
\<close>

definition first_nonempty :: "string list \<Rightarrow> string" where
  "first_nonempty xs = (case filter (\<lambda>s. s \<noteq> []) xs of [] \<Rightarrow> [] | s # _ \<Rightarrow> s)"

definition fill_entry :: "ToolCallAccumulator \<Rightarrow> tool_call_delta list \<Rightarrow> ToolCallAccumulator" where
  "fill_entry e ds =
     \<lparr>tc_id =
        (if tc_id e = [] then first_nonempty (map (\<lambda>d. nullish_or (tcd_id d) []) ds)
         else tc_id e),
      tc_type = tc_type e,
      tc_function =
        \<lparr>fn_name =
           (if fn_name (tc_function e) = []
            then first_nonempty (map (\<lambda>d. nullish_or (delta_function_name d) []) ds)
            else fn_name (tc_function e)),
         fn_arguments =
           fn_arguments (tc_function e)
             @ concat (map (\<lambda>d. nullish_or (delta_function_arguments d) []) ds)\<rparr>\<rparr>"

definition empty_entry :: ToolCallAccumulator where
  "empty_entry =
     \<lparr>tc_id = [], tc_type = ''function'', tc_function = \<lparr>fn_name = [], fn_arguments = []\<rparr>\<rparr>"

text \<open>
  A latch: the current value if it is truthy, and otherwise the first truthy one among
  the values seen, if there is one.
\<close>

definition latch :: "('a \<Rightarrow> bool) \<Rightarrow> 'a \<Rightarrow> 'a list \<Rightarrow> 'a" where
  "latch truthy current seen =
     (if truthy current then current
      else (case filter truthy seen of [] \<Rightarrow> current | v # _ \<Rightarrow> v))"

text \<open>The entries of a map of tool calls, sorted by ascending index.\<close>

definition sorted_by_index :: "(int, ToolCallAccumulator) js_map \<Rightarrow> ToolCallAccumulator list" where
  "sorted_by_index m = map snd (sort_key fst m)"

text \<open>The \<open>tool_calls\<close> of the response's message, \<open>None\<close> when the field is omitted.\<close>

definition response_tool_calls :: "ChatCompletionResponse \<Rightarrow> ToolCallAccumulator list option" where
  "response_tool_calls r =
     (case resp_choices r of [] \<Rightarrow> None | c # _ \<Rightarrow> msg_tool_calls (cns_message c))"

text \<open>An event with the given data.\<close>

definition event :: "string \<Rightarrow> ServerSentEventMessage" where
  "event d = \<lparr>sse_data = Some d\<rparr>"

text \<open>
  A parser given by a finite table of JSON texts and the values they denote, for
  running the fold on concrete events; every other text is taken not to parse.
\<close>

definition table_parser :: "(string \<times> json_value) list \<Rightarrow> json_parser" where
  "table_parser table = map_of table"

text \<open>
  The accumulator after the body of \<open>applyChunkToAccumulator\<close> has run on a choice
  with finish reason \<open>fr\<close>, text delta \<open>s\<close> and fragments \<open>ds\<close>.
\<close>

definition choice_result ::
  "FinishReason option \<Rightarrow> string \<Rightarrow> tool_call_delta list \<Rightarrow> StreamAccumulator \<Rightarrow> StreamAccumulator" where
  "choice_result fr s ds a =
     a\<lparr>acc_finishReason := (case fr of None \<Rightarrow> acc_finishReason a | Some r \<Rightarrow> r),
       acc_content := acc_content a @ s,
       acc_toolCalls := mergeToolCalls (acc_toolCalls a) ds\<rparr>"

text \<open>
  What a call added to the trace, and in it the network requests made and the numbers
  of invocations of \<open>doFetch\<close> and of \<open>refreshCopilotTokenOnError\<close>.
\<close>

definition new_effects :: "world \<Rightarrow> world \<Rightarrow> effect list" where
  "new_effects w w' = drop (length (w_trace w)) (w_trace w')"

fun requests_sent :: "effect list \<Rightarrow> http_request list" where
  "requests_sent [] = []"
| "requests_sent (Call_fetch r # es) = r # requests_sent es"
| "requests_sent (_ # es) = requests_sent es"

definition doFetch_calls :: "effect list \<Rightarrow> nat" where
  "doFetch_calls es = length (filter (\<lambda>e. e = Call_doFetch) es)"

definition refresh_calls :: "effect list \<Rightarrow> nat" where
  "refresh_calls es = length (filter (\<lambda>e. e = Call_refresh) es)"

section \<open>Example events\<close>

text \<open>
  JSON texts as the upstream sends them, each with the value \<open>JSON.parse\<close> gives for
  it, and the parser that knows exactly these texts. They are the concrete inputs of
  the examples below.
\<close>

definition text_json :: "string \<Rightarrow> string" where
  \<open>text_json s =
     ''{"id":"c1","model":"m1","created":1,"choices":[{"delta":{"content":"'' @ s @ ''"}}]}''\<close>

definition text_chunk :: "string \<Rightarrow> chunk" where
  "text_chunk s =
     \<lparr>chunk_id = Some ''c1'', chunk_model = Some ''m1'', chunk_created = Some 1,
      chunk_system_fingerprint = None, chunk_usage = None,
      chunk_choices =
        Some [\<lparr>choice_finish_reason = None,
               choice_delta = Some \<lparr>delta_content = Some s, delta_tool_calls = None\<rparr>\<rparr>]\<rparr>"

definition later_json :: string where
  \<open>later_json =
     ''{"id":"c2","model":"m2","created":2,"system_fingerprint":"fp","choices":[]}''\<close>

definition later_chunk :: chunk where
  "later_chunk =
     \<lparr>chunk_id = Some ''c2'', chunk_model = Some ''m2'', chunk_created = Some 2,
      chunk_system_fingerprint = Some ''fp'', chunk_usage = None, chunk_choices = Some []\<rparr>"

definition empty_object :: chunk where
  "empty_object =
     \<lparr>chunk_id = None, chunk_model = None, chunk_created = None,
      chunk_system_fingerprint = None, chunk_usage = None, chunk_choices = None\<rparr>"

definition tool_chunk :: "string option \<Rightarrow> tool_call_delta list \<Rightarrow> chunk" where
  "tool_chunk content fragments =
     \<lparr>chunk_id = None, chunk_model = None, chunk_created = None,
      chunk_system_fingerprint = None, chunk_usage = None,
      chunk_choices =
        Some [\<lparr>choice_finish_reason = None,
               choice_delta =
                 Some \<lparr>delta_content = content, delta_tool_calls = Some fragments\<rparr>\<rparr>]\<rparr>"

definition call_open_json :: string where
  \<open>call_open_json =
     ''{"choices":[{"delta":{"tool_calls":[{"index":0,"id":"a","function":{"name":"f","arguments":"{''
     @ [CHR 0x5C] @ ''"x'' @ [CHR 0x5C] @ ''":"}}]}}]}''\<close>

definition call_open :: tool_call_delta where
  \<open>call_open =
     \<lparr>tcd_index = 0, tcd_id = Some ''a'',
      tcd_function = Some \<lparr>fd_name = Some ''f'', fd_arguments = Some ''{"x":''\<rparr>\<rparr>\<close>

definition call_close_json :: string where
  \<open>call_close_json =
     ''{"choices":[{"delta":{"tool_calls":[{"index":0,"function":{"arguments":"1}"}}]}}]}''\<close>

definition call_close :: tool_call_delta where
  "call_close =
     \<lparr>tcd_index = 0, tcd_id = None,
      tcd_function = Some \<lparr>fd_name = None, fd_arguments = Some ''1}''\<rparr>\<rparr>"

definition call_a_json :: string where
  \<open>call_a_json =
     ''{"choices":[{"delta":{"tool_calls":[{"index":0,"id":"a","function":{"name":"f","arguments":"{}"}}]}}]}''\<close>

definition call_a :: tool_call_delta where
  "call_a =
     \<lparr>tcd_index = 0, tcd_id = Some ''a'',
      tcd_function = Some \<lparr>fd_name = Some ''f'', fd_arguments = Some ''{}''\<rparr>\<rparr>"

definition call_b_json :: string where
  \<open>call_b_json =
     ''{"choices":[{"delta":{"tool_calls":[{"index":1,"id":"b","function":{"name":"g","arguments":"{}"}}]}}]}''\<close>

definition call_b :: tool_call_delta where
  "call_b =
     \<lparr>tcd_index = 1, tcd_id = Some ''b'',
      tcd_function = Some \<lparr>fd_name = Some ''g'', fd_arguments = Some ''{}''\<rparr>\<rparr>"

definition mixed_json :: "string \<Rightarrow> string" where
  \<open>mixed_json s =
     ''{"choices":[{"delta":{"content":"'' @ s
     @ ''","tool_calls":[{"index":0,"id":"a","function":{"name":"f","arguments":"{}"}}]}}]}''\<close>

definition example_parser :: json_parser where
  "example_parser =
     table_parser
       [(text_json ''Hello'', Truthy (text_chunk ''Hello'')),
        (text_json ''Hel'', Truthy (text_chunk ''Hel'')),
        (text_json ''lo'', Truthy (text_chunk ''lo'')),
        (later_json, Truthy later_chunk),
        (''{}'', Truthy empty_object),
        (call_open_json, Truthy (tool_chunk None [call_open])),
        (call_close_json, Truthy (tool_chunk None [call_close])),
        (call_a_json, Truthy (tool_chunk None [call_a])),
        (call_b_json, Truthy (tool_chunk None [call_b])),
        (mixed_json ''ab'', Truthy (tool_chunk (Some ''ab'') [call_a])),
        (mixed_json ''a'', Truthy (tool_chunk (Some ''a'') [call_a])),
        (mixed_json ''b'', Truthy (tool_chunk (Some ''b'') [call_a]))]"

text \<open>
  An upstream that answers 200 with a short stream to the credential \<open>good\<close> and 401 to
  any other, a refresh that fails or stores the given credential, and an admission
  control that lets every request pass.
\<close>

definition example_env :: "bool \<Rightarrow> string \<Rightarrow> env" where
  "example_env refresh_succeeds fresh_token =
     \<lparr>copilotHeaders =
        (\<lambda>st vision.
           [(''Authorization'', ''Bearer '' @ nullish_or (copilotToken st) [])]
           @ (if vision then [(''copilot-vision-request'', ''true'')] else [])),
      copilotBaseUrl = (\<lambda>st. ''https://api.githubcopilot.com''),
      fetch =
        (\<lambda>trace req.
           if Map_get (req_headers req) ''Authorization'' = Some ''Bearer good''
           then Inr \<lparr>status = 200, body = [event (text_json ''Hello''), event ''[DONE]'']\<rparr>
           else Inr \<lparr>status = 401, body = []\<rparr>),
      refreshCopilotTokenOnError =
        (\<lambda>trace st.
           if refresh_succeeds then (True, st\<lparr>copilotToken := Some fresh_token\<rparr>)
           else (False, st)),
      checkRateLimit = (\<lambda>st. None),
      awaitApproval = (\<lambda>trace. None),
      cacheModels = (\<lambda>st. Inr st),
      runtime_JSON_parse = example_parser\<rparr>"

definition example_payload :: "bool option \<Rightarrow> ChatCompletionsPayload" where
  "example_payload flag =
     \<lparr>p_messages = [\<lparr>msg_role_of = User, msg_content_of = ContentString ''hi''\<rparr>],
      p_model = ''claude-opus-4-6'',
      p_max_tokens = None,
      p_stream = flag,
      p_params = []\<rparr>"

definition example_world :: "string \<Rightarrow> world" where
  "example_world token =
     \<lparr>w_state = \<lparr>copilotToken = Some token, models = None, manualApprove = False\<rparr>,
      w_trace = []\<rparr>"

text \<open>The request \<open>doFetch\<close> builds from the example payload under a credential.\<close>

definition example_request :: "string \<Rightarrow> http_request" where
  "example_request token =
     \<lparr>req_url = ''https://api.githubcopilot.com/chat/completions'',
      req_method = ''POST'',
      req_headers = [(''Authorization'', ''Bearer '' @ token), (''X-Initiator'', ''user'')],
      req_body =
        \<lparr>p_messages = [\<lparr>msg_role_of = User, msg_content_of = ContentString ''hi''\<rparr>],
         p_model = ''claude-opus-4.6-1m'',
         p_max_tokens = None,
         p_stream = Some True,
         p_params = []\<rparr>\<rparr>"

section \<open>Verification: alias registry\<close>

lemma reverseModelAliases_eq:
  "reverseModelAliases =
     [(''claude-opus-4.6-1m'', [''claude-opus-4-6[1M]'', ''claude-opus-4-6'']),
      (''claude-sonnet-4.6'', [''claude-sonnet-4-6'']),
      (''claude-haiku-4.5'', [''claude-haiku-4-5''])]"
  by (simp add: reverseModelAliases_def modelAliases_def reverseModelAliases_step_def Map_get_def)

lemma getModelAliases_eq:
  "getModelAliases x =
     (if x = ''claude-opus-4.6-1m'' then [''claude-opus-4-6[1M]'', ''claude-opus-4-6'']
      else if x = ''claude-sonnet-4.6'' then [''claude-sonnet-4-6'']
      else if x = ''claude-haiku-4.5'' then [''claude-haiku-4-5'']
      else [])"
  unfolding getModelAliases_def reverseModelAliases_eq Map_get_def by simp

lemma set_first_seen: "set (first_seen xs S) = set xs - S"
  by (induction xs S rule: first_seen.induct) auto

lemma distinct_first_seen: "distinct (first_seen xs S)"
  by (induction xs S rule: first_seen.induct) (auto simp: set_first_seen)

lemma first_seen_append:
  "first_seen (xs @ ys) S = first_seen xs S @ first_seen ys (S \<union> set xs)"
  by (induction xs S rule: first_seen.induct) (auto simp: insert_absorb)

lemma expand_variants_eq:
  "expand_variants vs (out, seen) = (out @ first_seen vs seen, seen \<union> set vs)"
  by (induction vs arbitrary: out seen) (auto simp: insert_absorb)

lemma expand_ids_eq:
  "expand_ids xs (out, seen) =
     (out @ first_seen (concat (map (\<lambda>x. x # getModelAliases x) xs)) seen,
      seen \<union> set (concat (map (\<lambda>x. x # getModelAliases x) xs)))"
proof (induction xs arbitrary: out seen)
  case Nil
  show ?case by simp
next
  case (Cons x xs)
  let ?V = "x # getModelAliases x"
  let ?R = "concat (map (\<lambda>x. x # getModelAliases x) xs)"
  have "expand_ids (x # xs) (out, seen) =
          expand_ids xs (out @ first_seen ?V seen, seen \<union> set ?V)"
    by (simp only: expand_ids.simps expand_variants_eq)
  also have "\<dots> = ((out @ first_seen ?V seen) @ first_seen ?R (seen \<union> set ?V),
                     (seen \<union> set ?V) \<union> set ?R)"
    by (rule Cons.IH)
  also have "\<dots> = (out @ first_seen (?V @ ?R) seen, seen \<union> set (?V @ ?R))"
    by (simp only: first_seen_append append_assoc set_append Un_assoc)
  finally show ?case by simp
qed

lemma expand_first_seen:
  "expandModelIdsWithAliases xs = first_seen (concat (map (\<lambda>x. x # getModelAliases x) xs)) {}"
  by (simp add: expandModelIdsWithAliases_def expand_ids_eq)


lemma first_seen_distinct_filter:
  "distinct ys \<Longrightarrow> first_seen ys S = filter (\<lambda>a. a \<notin> S) ys"
proof (induction ys S rule: first_seen.induct)
  case (1 S)
  show ?case by simp
next
  case (2 x xs S)
  then show ?case by (auto intro: filter_cong)
qed

lemma alias_of:
  "a \<in> set (getModelAliases u) \<Longrightarrow> normalizeModelName a = u \<and> a \<noteq> u \<and> getModelAliases a = []"
  by (auto simp: getModelAliases_eq normalizeModelName_def modelAliases_def split: if_splits)

lemma distinct_getModelAliases: "distinct (getModelAliases x)"
  by (simp add: getModelAliases_eq)

lemma followed_by_aliasesI:
  "out = pre @ x # getModelAliases x @ post \<Longrightarrow> x \<notin> set pre \<Longrightarrow> followed_by_aliases out x"
proof -
  assume o: "out = pre @ x # getModelAliases x @ post" and n: "x \<notin> set pre"
  from n have "dropWhile (\<lambda>y. y \<noteq> x) (pre @ x # getModelAliases x @ post)
                 = dropWhile (\<lambda>y. y \<noteq> x) (x # getModelAliases x @ post)"
    by (intro dropWhile_append2) auto
  then show ?thesis by (simp add: followed_by_aliases_def o)
qed

lemma expand_at_first:
  assumes "x \<notin> set us" "getModelAliases x \<noteq> []"
  defines "A \<equiv> concat (map (\<lambda>x. x # getModelAliases x) us)"
  shows "\<exists>post. expandModelIdsWithAliases (us @ x # vs) =
           first_seen A {} @ x # filter (\<lambda>a. a \<notin> set A) (getModelAliases x) @ post"
proof -
  have xA: "x \<notin> set A"
  proof
    assume "x \<in> set A"
    then obtain u where "u \<in> set us" "x = u \<or> x \<in> set (getModelAliases u)"
      by (auto simp: A_def)
    with assms(1) have "x \<in> set (getModelAliases u)" by auto
    then have "getModelAliases x = []" by (simp add: alias_of)
    with assms(2) show False by simp
  qed
  have nx: "x \<notin> set (getModelAliases x)" using alias_of[of x x] by auto
  have "first_seen (x # getModelAliases x) (set A)
          = x # filter (\<lambda>a. a \<notin> insert x (set A)) (getModelAliases x)"
    using xA by (simp add: first_seen_distinct_filter distinct_getModelAliases)
  also have "filter (\<lambda>a. a \<notin> insert x (set A)) (getModelAliases x)
          = filter (\<lambda>a. a \<notin> set A) (getModelAliases x)"
    using nx by (auto intro: filter_cong)
  finally have V: "first_seen (x # getModelAliases x) (set A)
          = x # filter (\<lambda>a. a \<notin> set A) (getModelAliases x)" .
  have "expandModelIdsWithAliases (us @ x # vs) =
          first_seen A {} @ first_seen (x # getModelAliases x) (set A)
            @ first_seen (concat (map (\<lambda>x. x # getModelAliases x) vs))
                (set A \<union> set (x # getModelAliases x))"
  proof -
    have "concat (map (\<lambda>x. x # getModelAliases x) (us @ x # vs)) =
            A @ (x # getModelAliases x) @ concat (map (\<lambda>x. x # getModelAliases x) vs)"
      by (simp add: A_def)
    then show ?thesis
      by (simp only: expand_first_seen first_seen_append Un_empty_left)
  qed
  then show ?thesis unfolding V by auto
qed

lemma expand_followed:
  assumes "x \<in> set xs"
  shows "\<exists>pre post. expandModelIdsWithAliases xs =
           pre @ x # filter (\<lambda>a. a \<notin> set pre) (getModelAliases x) @ post \<and> x \<notin> set pre"
proof (cases "getModelAliases x = []")
  case True
  have "x \<in> set (expandModelIdsWithAliases xs)"
    using assms by (auto simp: expand_first_seen set_first_seen)
  then obtain pre post where "expandModelIdsWithAliases xs = pre @ x # post" "x \<notin> set pre"
    by (auto dest: split_list_first)
  with True show ?thesis by auto
next
  case False
  from assms obtain us vs where xs: "xs = us @ x # vs" and nu: "x \<notin> set us"
    by (auto dest: split_list_first)
  let ?A = "concat (map (\<lambda>x. x # getModelAliases x) us)"
  from expand_at_first[OF nu False, of vs] obtain post where
    e: "expandModelIdsWithAliases xs =
          first_seen ?A {} @ x # filter (\<lambda>a. a \<notin> set ?A) (getModelAliases x) @ post"
    unfolding xs by blast
  have xA: "x \<notin> set ?A"
  proof
    assume "x \<in> set ?A"
    then obtain u where "u \<in> set us" "x = u \<or> x \<in> set (getModelAliases u)" by auto
    with nu have "x \<in> set (getModelAliases u)" by auto
    then have "getModelAliases x = []" by (simp add: alias_of)
    with False show False by simp
  qed
  have s: "set (first_seen ?A {}) = set ?A" by (simp add: set_first_seen)
  show ?thesis
    apply (rule exI[of _ "first_seen ?A {}"])
    apply (rule exI[of _ post])
    using e xA by (simp only: s) simp
qed

lemma expand_followed_canonical:
  assumes "x \<in> set xs" and canon: "\<forall>y \<in> set xs. normalizeModelName y = y"
  shows "followed_by_aliases (expandModelIdsWithAliases xs) x"
proof (cases "getModelAliases x = []")
  case True
  have "x \<in> set (expandModelIdsWithAliases xs)"
    using assms by (auto simp: expand_first_seen set_first_seen)
  then obtain pre post where "expandModelIdsWithAliases xs = pre @ x # post" "x \<notin> set pre"
    by (auto dest: split_list_first)
  with True show ?thesis by (auto intro: followed_by_aliasesI)
next
  case False
  from assms obtain us vs where xs: "xs = us @ x # vs" and nu: "x \<notin> set us"
    by (auto dest: split_list_first)
  let ?A = "concat (map (\<lambda>x. x # getModelAliases x) us)"
  from expand_at_first[OF nu False, of vs] obtain post where
    e: "expandModelIdsWithAliases xs =
          first_seen ?A {} @ x # filter (\<lambda>a. a \<notin> set ?A) (getModelAliases x) @ post"
    unfolding xs by blast
  have xA: "x \<notin> set ?A"
  proof
    assume "x \<in> set ?A"
    then obtain u where "u \<in> set us" "x = u \<or> x \<in> set (getModelAliases u)" by auto
    with nu have "x \<in> set (getModelAliases u)" by auto
    then have "getModelAliases x = []" by (simp add: alias_of)
    with False show False by simp
  qed
  have "a \<notin> set ?A" if a: "a \<in> set (getModelAliases x)" for a
  proof
    assume "a \<in> set ?A"
    then obtain u where u: "u \<in> set us" "a = u \<or> a \<in> set (getModelAliases u)" by auto
    from a have na: "normalizeModelName a = x" "a \<noteq> x" by (simp_all add: alias_of)
    from u(2) show False
    proof
      assume "a = u"
      with u(1) canon xs have "normalizeModelName a = a" by auto
      with na show False by simp
    next
      assume "a \<in> set (getModelAliases u)"
      then have "normalizeModelName a = u" by (simp add: alias_of)
      with na u(1) nu show False by simp
    qed
  qed
  then have "filter (\<lambda>a. a \<notin> set ?A) (getModelAliases x) = getModelAliases x"
    by (simp add: filter_id_conv)
  with e have "expandModelIdsWithAliases xs = first_seen ?A {} @ x # getModelAliases x @ post"
    by simp
  moreover have "x \<notin> set (first_seen ?A {})" using xA by (simp add: set_first_seen)
  ultimately show ?thesis by (rule followed_by_aliasesI)
qed

lemma listing_example:
  "map entry_id (list_data (list_models
      [\<lparr>m_id = ''claude-opus-4.6-1m'', m_vendor = v, m_name = n, m_max_output_tokens = t\<rparr>]))
   = [''claude-opus-4.6-1m'', ''claude-opus-4-6[1M]'', ''claude-opus-4-6'']"
  by (simp add: list_models_def expand_first_seen getModelAliases_eq normalizeModelName_def
        modelAliases_def Map_get_def)


text \<open>
  Claim C8, as the code has it. For every input list, \<open>expandModelIdsWithAliases\<close>
  returns a duplicate-free list: the first occurrences, in order, of the sequence that
  follows each input id with its registered aliases. The first occurrence of each
  input id is immediately followed by those of its aliases that have not occurred
  before it; they are all of its aliases when every input id is in canonical form. For
  the catalog \<open>["claude-opus-4.6-1m"]\<close> the model listing has the entries
  \<open>"claude-opus-4.6-1m"\<close>, \<open>"claude-opus-4-6[1M]"\<close> and \<open>"claude-opus-4-6"\<close>.
\<close>

theorem expandModelIdsWithAliases_first_seen:
  "distinct (expandModelIdsWithAliases modelIds)
   \<and> expandModelIdsWithAliases modelIds =
       first_seen (concat (map (\<lambda>x. x # getModelAliases x) modelIds)) {}
   \<and> (\<forall>x \<in> set modelIds. \<exists>pre post.
          expandModelIdsWithAliases modelIds =
            pre @ x # filter (\<lambda>a. a \<notin> set pre) (getModelAliases x) @ post
          \<and> x \<notin> set pre)
   \<and> ((\<forall>y \<in> set modelIds. normalizeModelName y = y) \<longrightarrow>
        (\<forall>x \<in> set modelIds. followed_by_aliases (expandModelIdsWithAliases modelIds) x))
   \<and> map entry_id (list_data (list_models
          [\<lparr>m_id = ''claude-opus-4.6-1m'', m_vendor = v, m_name = n,
            m_max_output_tokens = t\<rparr>]))
       = [''claude-opus-4.6-1m'', ''claude-opus-4-6[1M]'', ''claude-opus-4-6'']"
proof (intro conjI)
  show "distinct (expandModelIdsWithAliases modelIds)"
    by (simp add: expand_first_seen distinct_first_seen)
  show "expandModelIdsWithAliases modelIds =
          first_seen (concat (map (\<lambda>x. x # getModelAliases x) modelIds)) {}"
    by (rule expand_first_seen)
  show "\<forall>x \<in> set modelIds. \<exists>pre post.
          expandModelIdsWithAliases modelIds =
            pre @ x # filter (\<lambda>a. a \<notin> set pre) (getModelAliases x) @ post
          \<and> x \<notin> set pre"
    using expand_followed by blast
  show "(\<forall>y \<in> set modelIds. normalizeModelName y = y) \<longrightarrow>
        (\<forall>x \<in> set modelIds. followed_by_aliases (expandModelIdsWithAliases modelIds) x)"
    using expand_followed_canonical by blast
  show "map entry_id (list_data (list_models
          [\<lparr>m_id = ''claude-opus-4.6-1m'', m_vendor = v, m_name = n,
            m_max_output_tokens = t\<rparr>]))
       = [''claude-opus-4.6-1m'', ''claude-opus-4-6[1M]'', ''claude-opus-4-6'']"
    by (rule listing_example)
qed

theorem expandModelIdsWithAliases_first_seen_witness:
  "normalizeModelName ''claude-opus-4.6-1m'' = ''claude-opus-4.6-1m''
   \<and> normalizeModelName ''claude-haiku-4.5'' = ''claude-haiku-4.5''
   \<and> followed_by_aliases
         (expandModelIdsWithAliases [''claude-opus-4.6-1m'', ''claude-haiku-4.5''])
         ''claude-opus-4.6-1m''
   \<and> followed_by_aliases
         (expandModelIdsWithAliases [''claude-opus-4.6-1m'', ''claude-haiku-4.5''])
         ''claude-haiku-4.5''
   \<and> expandModelIdsWithAliases [''claude-opus-4.6-1m'', ''claude-haiku-4.5''] =
       [''claude-opus-4.6-1m'', ''claude-opus-4-6[1M]'', ''claude-opus-4-6'',
        ''claude-haiku-4.5'', ''claude-haiku-4-5'']"
proof -
  let ?ids = "[''claude-opus-4.6-1m'', ''claude-haiku-4.5'']"
  have canon: "\<forall>y \<in> set ?ids. normalizeModelName y = y"
    by (simp add: normalizeModelName_def modelAliases_def)
  have "(\<forall>y \<in> set ?ids. normalizeModelName y = y) \<longrightarrow>
        (\<forall>x \<in> set ?ids. followed_by_aliases (expandModelIdsWithAliases ?ids) x)"
    using expandModelIdsWithAliases_first_seen
            [where modelIds = ?ids and v = "[]" and n = "[]" and t = None]
    by blast
  with canon have f: "\<forall>x \<in> set ?ids. followed_by_aliases (expandModelIdsWithAliases ?ids) x"
    by blast
  have e: "expandModelIdsWithAliases ?ids =
       [''claude-opus-4.6-1m'', ''claude-opus-4-6[1M]'', ''claude-opus-4-6'',
        ''claude-haiku-4.5'', ''claude-haiku-4-5'']"
    by (simp add: expand_first_seen getModelAliases_eq)
  from canon f show ?thesis unfolding e by simp
qed

text \<open>
  The claim as the spec states it fails on an input that lists an alias before its
  canonical id: the alias is then already in the output when the canonical id arrives,
  and is not repeated after it.
\<close>

theorem expandModelIdsWithAliases_alias_first:
  "expandModelIdsWithAliases [''claude-opus-4-6'', ''claude-opus-4.6-1m''] =
     [''claude-opus-4-6'', ''claude-opus-4.6-1m'', ''claude-opus-4-6[1M]'']
   \<and> getModelAliases ''claude-opus-4.6-1m'' = [''claude-opus-4-6[1M]'', ''claude-opus-4-6'']
   \<and> \<not> followed_by_aliases
         (expandModelIdsWithAliases [''claude-opus-4-6'', ''claude-opus-4.6-1m''])
         ''claude-opus-4.6-1m''"
  by (simp add: followed_by_aliases_def expand_first_seen getModelAliases_eq)

section \<open>Verification: stream accumulator\<close>

subsection \<open>Insertion-ordered maps\<close>

lemma Map_get_set: "Map_get (Map_set m k v) k' = (if k' = k then Some v else Map_get m k')"
  by (induction m) (auto simp: Map_get_def)

lemma keys_Map_set:
  "map fst (Map_set m k v) = (if k \<in> fst ` set m then map fst m else map fst m @ [k])"
  by (induction m) force+

lemma Map_get_None_iff: "Map_get m k = None \<longleftrightarrow> k \<notin> fst ` set m"
  by (simp add: Map_get_def map_of_eq_None_iff)

subsection \<open>The loop and the chunks it consumes\<close>

lemma collect_loop_consumed: "collect_loop P es acc = apply_chunks (consumed P es) acc"
  by (induction es arbitrary: acc) (auto split: json_value.splits sum.splits)

lemma consumed_append:
  "consumed P (pre @ rest) =
     consumed P pre @ (if Some ''[DONE]'' \<in> sse_data ` set pre then [] else consumed P rest)"
  by (induction pre) (auto simp: truthy_string_def split: json_value.splits)

lemma apply_chunks_append:
  "apply_chunks (cs @ cs') acc =
     (case apply_chunks cs acc of Inl e \<Rightarrow> Inl e | Inr a \<Rightarrow> apply_chunks cs' a)"
  by (induction cs arbitrary: acc) (auto split: sum.splits)


subsection \<open>The entry of an index after a merge\<close>

lemma mergeToolCall_get:
  "Map_get (mergeToolCall m d) i =
     (if i = tcd_index d
      then Some (case Map_get m i of None \<Rightarrow> fill_entry empty_entry [d]
                                   | Some e \<Rightarrow> fill_entry e [d])
      else Map_get m i)"
  by (auto simp: mergeToolCall_def Map_get_set fill_entry_def empty_entry_def first_nonempty_def
        truthy_string_def nullish_or_def split: option.splits)

lemma fill_entry_Nil: "fill_entry e [] = e"
  by (simp add: fill_entry_def first_nonempty_def)

lemma fill_entry_Cons: "fill_entry (fill_entry e [d]) ds = fill_entry e (d # ds)"
  by (simp add: fill_entry_def first_nonempty_def)

lemma mergeToolCalls_get:
  "Map_get (mergeToolCalls m ds) i =
     (case Map_get m i of
        Some e \<Rightarrow> Some (fill_entry e (filter (\<lambda>d. tcd_index d = i) ds))
      | None \<Rightarrow>
          (if filter (\<lambda>d. tcd_index d = i) ds = [] then None
           else Some (fill_entry empty_entry (filter (\<lambda>d. tcd_index d = i) ds))))"
proof (induction ds arbitrary: m)
  case Nil
  show ?case by (simp add: mergeToolCalls_def fill_entry_Nil split: option.splits)
next
  case (Cons d ds)
  have "mergeToolCalls m (d # ds) = mergeToolCalls (mergeToolCall m d) ds"
    by (simp add: mergeToolCalls_def)
  then show ?case
    by (auto simp: Cons.IH mergeToolCall_get fill_entry_Cons split: option.splits)
qed

lemma mergeToolCall_keys:
  "map fst (mergeToolCall m d) =
     (if tcd_index d \<in> fst ` set m then map fst m else map fst m @ [tcd_index d])"
  by (auto simp: mergeToolCall_def keys_Map_set Map_get_None_iff split: option.splits)

lemma mergeToolCalls_keys:
  "map fst (mergeToolCalls m ds) = map fst m @ first_seen (map tcd_index ds) (fst ` set m)"
proof (induction ds arbitrary: m)
  case Nil
  show ?case by (simp add: mergeToolCalls_def)
next
  case (Cons d ds)
  have "mergeToolCalls m (d # ds) = mergeToolCalls (mergeToolCall m d) ds"
    by (simp add: mergeToolCalls_def)
  moreover have "fst ` set (mergeToolCall m d) = insert (tcd_index d) (fst ` set m)"
  proof -
    have "set (map fst (mergeToolCall m d)) = insert (tcd_index d) (set (map fst m))"
      by (simp only: mergeToolCall_keys) auto
    then show ?thesis by simp
  qed
  ultimately show ?case
    by (auto simp: Cons.IH mergeToolCall_keys insert_absorb)
qed


subsection \<open>The fields after one chunk\<close>

lemma applyHeader_fields:
  "acc_id (applyHeader c a) =
     (if acc_id a = [] then nullish_or (chunk_id c) [] else acc_id a)"
  "acc_model (applyHeader c a) =
     (if acc_model a = [] then nullish_or (chunk_model c) [] else acc_model a)"
  "acc_created (applyHeader c a) =
     (if acc_created a = 0 then nullish_or (chunk_created c) 0 else acc_created a)"
  "acc_systemFingerprint (applyHeader c a) =
     (if \<not> truthy_string (acc_systemFingerprint a) \<and> truthy_string (chunk_system_fingerprint c)
      then chunk_system_fingerprint c else acc_systemFingerprint a)"
  "acc_usage (applyHeader c a) = (case chunk_usage c of None \<Rightarrow> acc_usage a | Some u \<Rightarrow> Some u)"
  "acc_finishReason (applyHeader c a) = acc_finishReason a"
  "acc_content (applyHeader c a) = acc_content a"
  "acc_toolCalls (applyHeader c a) = acc_toolCalls a"
  by (auto simp: applyHeader_def Let_def truthy_string_def truthy_number_def nullish_or_def
        split: option.splits)

lemma applyChoice_fields:
  assumes "applyChoice ch a = Inr a'"
  shows "acc_id a' = acc_id a" "acc_model a' = acc_model a" "acc_created a' = acc_created a"
    "acc_systemFingerprint a' = acc_systemFingerprint a" "acc_usage a' = acc_usage a"
  using assms
  by (auto simp: applyChoice_def Let_def split: option.splits)

lemma applyChunk_Inr:
  assumes "applyChunkToAccumulator c a = Inr a'"
  shows "acc_id a' = acc_id (applyHeader c a)"
    "acc_model a' = acc_model (applyHeader c a)"
    "acc_created a' = acc_created (applyHeader c a)"
    "acc_systemFingerprint a' = acc_systemFingerprint (applyHeader c a)"
    "acc_usage a' = acc_usage (applyHeader c a)"
    "acc_toolCalls a' = mergeToolCalls (acc_toolCalls a) (chunk_fragments c)"
  using assms
  by (auto simp: applyChunkToAccumulator_def Let_def applyChoice_def chunk_fragments_def
        applyHeader_fields mergeToolCalls_def
        split: option.splits list.splits)

lemma apply_chunks_toolCalls:
  "apply_chunks cs a = Inr a' \<Longrightarrow>
     acc_toolCalls a' = mergeToolCalls (acc_toolCalls a) (concat (map chunk_fragments cs))"
proof (induction cs arbitrary: a)
  case Nil
  then show ?case by (simp add: mergeToolCalls_def)
next
  case (Cons c cs)
  then obtain a1 where 1: "applyChunkToAccumulator c a = Inr a1" and 2: "apply_chunks cs a1 = Inr a'"
    by (auto split: sum.splits)
  show ?case
    using Cons.IH[OF 2] applyChunk_Inr(6)[OF 1] by (simp add: mergeToolCalls_def)
qed

lemma event_data [simp]: "sse_data (event d) = Some d"
  by (simp add: event_def)

lemma consumed_unparsed:
  assumes "P d = None" "d \<noteq> ''[DONE]''"
  shows "consumed P (event d # post) = consumed P post"
  using assms by (simp add: parseChunkDataOrLog_def)

lemma consumed_drop_unparsed:
  assumes "P d = None" "d \<noteq> ''[DONE]''"
  shows "consumed P (pre @ event d # post) = consumed P (pre @ post)"
  by (simp only: consumed_append consumed_unparsed[of P d, OF assms])

lemma applyChunk_latched:
  assumes "applyChunkToAccumulator c a = Inr a'"
  shows "acc_id a \<noteq> [] \<Longrightarrow> acc_id a' = acc_id a"
    and "acc_model a \<noteq> [] \<Longrightarrow> acc_model a' = acc_model a"
    and "acc_created a \<noteq> 0 \<Longrightarrow> acc_created a' = acc_created a"
    and "truthy_string (acc_systemFingerprint a) \<Longrightarrow>
           acc_systemFingerprint a' = acc_systemFingerprint a"
  by (simp_all add: applyChunk_Inr[OF assms] applyHeader_fields)

lemma applyChunk_latches:
  assumes "applyChunkToAccumulator c a = Inr a'"
  shows "acc_id a = [] \<Longrightarrow> truthy_string (chunk_id c) \<Longrightarrow> Some (acc_id a') = chunk_id c"
    and "acc_model a = [] \<Longrightarrow> truthy_string (chunk_model c) \<Longrightarrow> Some (acc_model a') = chunk_model c"
    and "acc_created a = 0 \<Longrightarrow> truthy_number (chunk_created c) \<Longrightarrow>
           Some (acc_created a') = chunk_created c"
    and "\<not> truthy_string (acc_systemFingerprint a) \<Longrightarrow> truthy_string (chunk_system_fingerprint c) \<Longrightarrow>
           acc_systemFingerprint a' = chunk_system_fingerprint c"
  by (auto simp: applyChunk_Inr[OF assms] applyHeader_fields truthy_string_def truthy_number_def
        nullish_or_def split: option.splits)

lemma apply_chunks_latched:
  assumes "apply_chunks cs a = Inr a'"
  shows "(acc_id a \<noteq> [] \<longrightarrow> acc_id a' = acc_id a)
       \<and> (acc_model a \<noteq> [] \<longrightarrow> acc_model a' = acc_model a)
       \<and> (acc_created a \<noteq> 0 \<longrightarrow> acc_created a' = acc_created a)
       \<and> (truthy_string (acc_systemFingerprint a) \<longrightarrow>
            acc_systemFingerprint a' = acc_systemFingerprint a)"
  using assms
proof (induction cs arbitrary: a)
  case Nil
  then show ?case by simp
next
  case (Cons c cs)
  then obtain a1 where 1: "applyChunkToAccumulator c a = Inr a1" and 2: "apply_chunks cs a1 = Inr a'"
    by (auto split: sum.splits)
  from Cons.IH[OF 2] applyChunk_latched[OF 1] show ?case by metis
qed


lemma consumed_parsed:
  assumes "P d = Some (Truthy c)" "d \<noteq> []" "d \<noteq> ''[DONE]''"
  shows "consumed P (event d # post) = c # consumed P post"
  using assms by (simp add: parseChunkDataOrLog_def truthy_string_def)

subsection \<open>Merging the same fragments twice\<close>

lemma Map_set_same: "Map_get m k = Some v \<Longrightarrow> Map_set m k v = m"
  by (induction m) (auto simp: Map_get_def split: if_splits)

lemma mergeToolCall_eq:
  "mergeToolCall m d =
     Map_set m (tcd_index d)
       (fill_entry (case Map_get m (tcd_index d) of None \<Rightarrow> empty_entry | Some e \<Rightarrow> e) [d])"
  by (auto simp: mergeToolCall_def fill_entry_def empty_entry_def first_nonempty_def
        truthy_string_def nullish_or_def split: option.splits)

lemma fill_entry_fixed:
  "fill_entry e [d] = e \<longleftrightarrow>
     (tc_id e \<noteq> [] \<or> \<not> truthy_string (tcd_id d))
   \<and> (fn_name (tc_function e) \<noteq> [] \<or> \<not> truthy_string (delta_function_name d))
   \<and> \<not> truthy_string (delta_function_arguments d)"
  by (cases e, cases "tc_function e")
     (auto simp: fill_entry_def first_nonempty_def truthy_string_def nullish_or_def
        split: option.splits)

lemma fill_entry_sel:
  "tc_id (fill_entry e ds) =
     (if tc_id e = [] then first_nonempty (map (\<lambda>d. nullish_or (tcd_id d) []) ds) else tc_id e)"
  "fn_name (tc_function (fill_entry e ds)) =
     (if fn_name (tc_function e) = []
      then first_nonempty (map (\<lambda>d. nullish_or (delta_function_name d) []) ds)
      else fn_name (tc_function e))"
  by (simp_all add: fill_entry_def)

lemma first_nonempty_single: "first_nonempty [s] = s"
  by (simp add: first_nonempty_def)

lemma truthy_string_nullish: "truthy_string x \<longleftrightarrow> nullish_or x [] \<noteq> []"
  by (simp add: truthy_string_def nullish_or_def split: option.splits)

lemma mergeToolCall_fixed:
  "mergeToolCall m d = m \<longleftrightarrow>
     (\<exists>e. Map_get m (tcd_index d) = Some e \<and> fill_entry e [d] = e)"
proof
  assume f: "mergeToolCall m d = m"
  have "Map_get (mergeToolCall m d) (tcd_index d) =
          Some (fill_entry (case Map_get m (tcd_index d) of None \<Rightarrow> empty_entry | Some e \<Rightarrow> e) [d])"
    by (simp add: mergeToolCall_eq Map_get_set)
  with f have g: "Map_get m (tcd_index d) =
          Some (fill_entry (case Map_get m (tcd_index d) of None \<Rightarrow> empty_entry | Some e \<Rightarrow> e) [d])"
    by simp
  then obtain e where e: "Map_get m (tcd_index d) = Some e" by blast
  with g have "fill_entry e [d] = e" by simp
  with e show "\<exists>e. Map_get m (tcd_index d) = Some e \<and> fill_entry e [d] = e" by blast
next
  assume "\<exists>e. Map_get m (tcd_index d) = Some e \<and> fill_entry e [d] = e"
  then obtain e where e: "Map_get m (tcd_index d) = Some e" "fill_entry e [d] = e" by blast
  then show "mergeToolCall m d = m"
    by (simp add: mergeToolCall_eq Map_set_same)
qed

lemma mergeToolCall_absorbs_self:
  assumes "\<not> truthy_string (delta_function_arguments d)"
  shows "mergeToolCall (mergeToolCall m d) d = mergeToolCall m d"
proof -
  let ?e = "fill_entry (case Map_get m (tcd_index d) of None \<Rightarrow> empty_entry | Some e \<Rightarrow> e) [d]"
  have "Map_get (mergeToolCall m d) (tcd_index d) = Some ?e"
    by (simp add: mergeToolCall_eq Map_get_set)
  moreover have "fill_entry ?e [d] = ?e"
    using assms
    by (simp add: fill_entry_fixed fill_entry_sel first_nonempty_single truthy_string_nullish)
  ultimately show ?thesis by (subst mergeToolCall_fixed) blast
qed

lemma mergeToolCall_absorbs_mono:
  assumes "mergeToolCall m d = m"
  shows "mergeToolCall (mergeToolCall m d') d = mergeToolCall m d'"
proof -
  from assms obtain e where e: "Map_get m (tcd_index d) = Some e" "fill_entry e [d] = e"
    by (auto simp: mergeToolCall_fixed)
  show ?thesis
  proof (cases "tcd_index d' = tcd_index d")
    case False
    then have "Map_get (mergeToolCall m d') (tcd_index d) = Some e"
      using e by (simp add: mergeToolCall_eq Map_get_set)
    with e(2) show ?thesis by (subst mergeToolCall_fixed) blast
  next
    case True
    then have g: "Map_get (mergeToolCall m d') (tcd_index d) = Some (fill_entry e [d'])"
      using e by (simp add: mergeToolCall_eq Map_get_set)
    have "fill_entry (fill_entry e [d']) [d] = fill_entry e [d']"
      using e(2)
      by (auto simp: fill_entry_fixed fill_entry_sel first_nonempty_single truthy_string_nullish)
    with g show ?thesis by (subst mergeToolCall_fixed) blast
  qed
qed

lemma mergeToolCalls_snoc:
  "mergeToolCalls m (ds @ [d]) = mergeToolCall (mergeToolCalls m ds) d"
  by (simp add: mergeToolCalls_def)

lemma mergeToolCalls_absorbs:
  assumes "\<forall>d \<in> set ds. \<not> truthy_string (delta_function_arguments d)" "d \<in> set ds"
  shows "mergeToolCall (mergeToolCalls m ds) d = mergeToolCalls m ds"
  using assms
proof (induction ds rule: rev_induct)
  case Nil
  then show ?case by simp
next
  case (snoc x xs)
  show ?case
  proof (cases "d = x")
    case True
    with snoc.prems show ?thesis
      by (simp add: mergeToolCalls_snoc mergeToolCall_absorbs_self)
  next
    case False
    with snoc have "mergeToolCall (mergeToolCalls m xs) d = mergeToolCalls m xs" by simp
    then show ?thesis
      by (simp add: mergeToolCalls_snoc mergeToolCall_absorbs_mono)
  qed
qed

lemma mergeToolCalls_fixed:
  "\<forall>d \<in> set ds. mergeToolCall m d = m \<Longrightarrow> mergeToolCalls m ds = m"
  by (induction ds) (simp_all add: mergeToolCalls_def)

lemma mergeToolCalls_idem:
  assumes "\<forall>d \<in> set ds. \<not> truthy_string (delta_function_arguments d)"
  shows "mergeToolCalls (mergeToolCalls m ds) ds = mergeToolCalls m ds"
  by (rule mergeToolCalls_fixed) (simp add: mergeToolCalls_absorbs[OF assms])

subsection \<open>The latches and the body of a step\<close>

lemma applyHeader_choices [simp]:
  "applyHeader (c\<lparr>chunk_choices := x\<rparr>) a = applyHeader c a"
  by (rule StreamAccumulator.equality) (simp_all add: applyHeader_fields)

lemma applyHeader_idem: "applyHeader c (applyHeader c a) = applyHeader c a"
  by (rule StreamAccumulator.equality)
     (auto simp: applyHeader_fields truthy_string_def truthy_number_def nullish_or_def
        split: option.splits)

lemma applyHeader_body_update:
  "applyHeader c (a\<lparr>acc_finishReason := f, acc_content := x, acc_toolCalls := m\<rparr>) =
     (applyHeader c a)\<lparr>acc_finishReason := f, acc_content := x, acc_toolCalls := m\<rparr>"
  by (rule StreamAccumulator.equality) (simp_all add: applyHeader_fields split: option.splits)

lemma applyChoice_text:
  assumes "choice_delta ch = Some d" "delta_content d = Some s"
  shows "applyChoice ch a =
           Inr (choice_result (choice_finish_reason ch) s
                  (case delta_tool_calls d of None \<Rightarrow> [] | Some ds \<Rightarrow> ds) a)"
  using assms
  by (auto simp: applyChoice_def choice_result_def Let_def mergeToolCalls_def
        split: option.splits)

lemma applyChunk_text:
  assumes "chunk_choices c = Some (ch # rest)" "choice_delta ch = Some d"
  shows "applyChunkToAccumulator (with_content c s) a =
           Inr (choice_result (choice_finish_reason ch) s (chunk_fragments c) (applyHeader c a))"
  using assms
  by (simp add: applyChunkToAccumulator_def with_content_def Let_def chunk_fragments_def
        applyChoice_text[where d = "d\<lparr>delta_content := Some s\<rparr>"])

lemma with_content_same:
  "text_delta c = Some s \<Longrightarrow> with_content c s = c"
  by (auto simp: text_delta_def with_content_def split: option.splits list.splits)

lemma choice_result_twice:
  assumes "\<forall>f \<in> set ds. \<not> truthy_string (delta_function_arguments f)"
  shows "choice_result fr t ds (applyHeader c (choice_result fr s ds (applyHeader c a))) =
           choice_result fr (s @ t) ds (applyHeader c a)"
  unfolding choice_result_def applyHeader_body_update applyHeader_idem
  by (cases fr) (simp_all add: mergeToolCalls_idem[OF assms])

lemma split_text_step:
  assumes "text_delta c = Some (s @ t)"
      and "\<forall>f \<in> set (chunk_fragments c). \<not> truthy_string (delta_function_arguments f)"
  shows "(case applyChunkToAccumulator (with_content c s) a of
            Inl e \<Rightarrow> Inl e
          | Inr a1 \<Rightarrow> applyChunkToAccumulator (with_content c t) a1)
         = applyChunkToAccumulator c a"
proof -
  from assms(1) obtain ch rest d where
    c: "chunk_choices c = Some (ch # rest)" "choice_delta ch = Some d"
    by (auto simp: text_delta_def split: option.splits list.splits)
  have "applyChunkToAccumulator c a = applyChunkToAccumulator (with_content c (s @ t)) a"
    by (simp add: with_content_same[OF assms(1)])
  then show ?thesis
    by (simp add: applyChunk_text[OF c] choice_result_twice[OF assms(2)])
qed

subsection \<open>The example events\<close>

lemma example_parser_simps:
  "example_parser (text_json ''Hello'') = Some (Truthy (text_chunk ''Hello''))"
  "example_parser (text_json ''Hel'') = Some (Truthy (text_chunk ''Hel''))"
  "example_parser (text_json ''lo'') = Some (Truthy (text_chunk ''lo''))"
  "example_parser later_json = Some (Truthy later_chunk)"
  "example_parser ''{}'' = Some (Truthy empty_object)"
  "example_parser call_open_json = Some (Truthy (tool_chunk None [call_open]))"
  "example_parser call_close_json = Some (Truthy (tool_chunk None [call_close]))"
  "example_parser call_a_json = Some (Truthy (tool_chunk None [call_a]))"
  "example_parser call_b_json = Some (Truthy (tool_chunk None [call_b]))"
  "example_parser (mixed_json ''ab'') = Some (Truthy (tool_chunk (Some ''ab'') [call_a]))"
  "example_parser (mixed_json ''a'') = Some (Truthy (tool_chunk (Some ''a'') [call_a]))"
  "example_parser (mixed_json ''b'') = Some (Truthy (tool_chunk (Some ''b'') [call_a]))"
  "example_parser ''{oops'' = None"
  by (simp_all add: example_parser_def table_parser_def text_json_def later_json_def
        call_open_json_def call_close_json_def call_a_json_def call_b_json_def mixed_json_def)

lemma example_data_proper:
  "text_json s \<noteq> []" "text_json s \<noteq> ''[DONE]''"
  "later_json \<noteq> []" "later_json \<noteq> ''[DONE]''"
  "call_open_json \<noteq> []" "call_open_json \<noteq> ''[DONE]''"
  "call_close_json \<noteq> []" "call_close_json \<noteq> ''[DONE]''"
  "call_a_json \<noteq> []" "call_a_json \<noteq> ''[DONE]''"
  "call_b_json \<noteq> []" "call_b_json \<noteq> ''[DONE]''"
  "mixed_json s \<noteq> []" "mixed_json s \<noteq> ''[DONE]''"
  by (simp_all add: text_json_def later_json_def
        call_open_json_def call_close_json_def call_a_json_def call_b_json_def mixed_json_def)

lemmas eval_chunk =
  applyChunkToAccumulator_def applyHeader_def applyChoice_def Let_def createAccumulator_def
  parseChunkDataOrLog_def buildResponse_def Map_size_def Map_values_def Map_get_def mergeToolCalls_def mergeToolCall_def
  truthy_string_def truthy_number_def nullish_or_def delta_function_name_def
  delta_function_arguments_def text_chunk_def later_chunk_def tool_chunk_def empty_object_def
  call_open_def call_close_def call_a_def call_b_def

lemma fold_hel_lo:
  "collectStreamToResponse example_parser [event (text_json ''Hel''), event (text_json ''lo'')] =
     Inr \<lparr>resp_id = ''c1'', resp_object = ''chat.completion'', resp_created = 1,
          resp_model = ''m1'',
          resp_choices =
            [\<lparr>cns_index = 0,
              cns_message =
                \<lparr>msg_role = ''assistant'', msg_content = Some ''Hello'', msg_tool_calls = None\<rparr>,
              cns_finish_reason = Stop\<rparr>],
          resp_system_fingerprint = None, resp_usage = None\<rparr>"
  by (simp add: collectStreamToResponse_def collect_loop_consumed consumed_parsed
        example_parser_simps example_data_proper eval_chunk)

subsection \<open>Malformed events\<close>

text \<open>
  Claim C4. An event whose data reaches \<open>JSON.parse\<close> and fails to parse is skipped:
  the loop goes on with the accumulator unchanged, the event alone never aborts the
  fold, and the response of a sequence with such an event, wherever it stands, is the
  response of the sequence without it. (The sentinel is never parsed: it ends the
  loop.)
\<close>

theorem malformed_event_skipped:
  assumes "JSON_parse d = None" and "d \<noteq> ''[DONE]''"
  shows "collect_loop JSON_parse (event d # post) acc = collect_loop JSON_parse post acc
       \<and> collect_loop JSON_parse [event d] acc = Inr acc
       \<and> collectStreamToResponse JSON_parse (pre @ event d # post)
           = collectStreamToResponse JSON_parse (pre @ post)"
proof (intro conjI)
  show "collect_loop JSON_parse (event d # post) acc = collect_loop JSON_parse post acc"
    by (simp only: collect_loop_consumed consumed_unparsed[of JSON_parse d, OF assms])
  show "collect_loop JSON_parse [event d] acc = Inr acc"
    using consumed_unparsed[of JSON_parse d "[]", OF assms]
    by (simp add: collect_loop_consumed)
  show "collectStreamToResponse JSON_parse (pre @ event d # post)
           = collectStreamToResponse JSON_parse (pre @ post)"
    by (simp only: collectStreamToResponse_def collect_loop_consumed
          consumed_drop_unparsed[of JSON_parse d, OF assms])
qed

theorem malformed_event_skipped_witness:
  "example_parser ''{oops'' = None
   \<and> collectStreamToResponse example_parser
        [event (text_json ''Hel''), event ''{oops'', event (text_json ''lo'')]
      = Inr \<lparr>resp_id = ''c1'', resp_object = ''chat.completion'', resp_created = 1,
          resp_model = ''m1'',
          resp_choices =
            [\<lparr>cns_index = 0,
              cns_message =
                \<lparr>msg_role = ''assistant'', msg_content = Some ''Hello'', msg_tool_calls = None\<rparr>,
              cns_finish_reason = Stop\<rparr>],
          resp_system_fingerprint = None, resp_usage = None\<rparr>"
proof -
  have p: "example_parser ''{oops'' = None" by (rule example_parser_simps)
  have n: "''{oops'' \<noteq> ''[DONE]''" by simp
  from malformed_event_skipped
         [where JSON_parse = example_parser and d = "''{oops''"
            and post = "[event (text_json ''lo'')]" and acc = createAccumulator
            and pre = "[event (text_json ''Hel'')]", OF p n]
  have "collectStreamToResponse example_parser
          [event (text_json ''Hel''), event ''{oops'', event (text_json ''lo'')]
        = collectStreamToResponse example_parser
          [event (text_json ''Hel''), event (text_json ''lo'')]"
    by simp
  with p show ?thesis by (simp only: fold_hel_lo simp_thms)
qed

subsection \<open>Latched fields\<close>

lemma latch_Nil: "latch t cur [] = cur"
  by (simp add: latch_def)

lemma latch_Cons: "latch t cur (x # xs) = latch t (latch t cur [x]) xs"
  by (auto simp: latch_def split: list.splits)

lemma latch_kept: "t cur \<Longrightarrow> latch t cur xs = cur"
  by (simp add: latch_def)

lemma applyChunk_latch:
  assumes "applyChunkToAccumulator c a = Inr a'"
  shows "acc_id a' = latch (\<lambda>s. s \<noteq> []) (acc_id a) [nullish_or (chunk_id c) []]"
    and "acc_model a' = latch (\<lambda>s. s \<noteq> []) (acc_model a) [nullish_or (chunk_model c) []]"
    and "acc_created a' = latch (\<lambda>n. n \<noteq> 0) (acc_created a) [nullish_or (chunk_created c) 0]"
    and "acc_systemFingerprint a' =
           latch truthy_string (acc_systemFingerprint a) [chunk_system_fingerprint c]"
  by (auto simp: applyChunk_Inr[OF assms] applyHeader_fields latch_def)

lemma apply_chunks_latch:
  assumes "apply_chunks cs a = Inr a'"
  shows "acc_id a' = latch (\<lambda>s. s \<noteq> []) (acc_id a) (map (\<lambda>c. nullish_or (chunk_id c) []) cs)
       \<and> acc_model a' =
           latch (\<lambda>s. s \<noteq> []) (acc_model a) (map (\<lambda>c. nullish_or (chunk_model c) []) cs)
       \<and> acc_created a' =
           latch (\<lambda>n. n \<noteq> 0) (acc_created a) (map (\<lambda>c. nullish_or (chunk_created c) 0) cs)
       \<and> acc_systemFingerprint a' =
           latch truthy_string (acc_systemFingerprint a) (map chunk_system_fingerprint cs)"
  using assms
proof (induction cs arbitrary: a)
  case Nil
  then show ?case by (simp add: latch_Nil)
next
  case (Cons c cs)
  then obtain a1 where 1: "applyChunkToAccumulator c a = Inr a1" and 2: "apply_chunks cs a1 = Inr a'"
    by (auto split: sum.splits)
  show ?case
    using Cons.IH[OF 2]
    by (simp only: list.map applyChunk_latch[OF 1] latch_Cons[where xs = "map _ cs"])
qed

text \<open>
  Claim C9. Whenever the fold of a sequence of events returns, each of \<open>id\<close>,
  \<open>model\<close>, \<open>created\<close> and the system fingerprint is a latch over the chunks the
  fold consumed: the value the accumulator held before, if that was non-empty, and else
  the first non-empty value observed. In particular a field that holds a non-empty
  value at some point of the fold is left unchanged by every later step, whatever the
  later events carry.
\<close>

theorem latched_fields_never_overwritten:
  assumes "collect_loop JSON_parse stream a = Inr a'"
  shows "acc_id a' =
           latch (\<lambda>s. s \<noteq> []) (acc_id a)
             (map (\<lambda>c. nullish_or (chunk_id c) []) (consumed JSON_parse stream))
       \<and> acc_model a' =
           latch (\<lambda>s. s \<noteq> []) (acc_model a)
             (map (\<lambda>c. nullish_or (chunk_model c) []) (consumed JSON_parse stream))
       \<and> acc_created a' =
           latch (\<lambda>n. n \<noteq> 0) (acc_created a)
             (map (\<lambda>c. nullish_or (chunk_created c) 0) (consumed JSON_parse stream))
       \<and> acc_systemFingerprint a' =
           latch truthy_string (acc_systemFingerprint a)
             (map chunk_system_fingerprint (consumed JSON_parse stream))
       \<and> (acc_id a \<noteq> [] \<longrightarrow> acc_id a' = acc_id a)
       \<and> (acc_model a \<noteq> [] \<longrightarrow> acc_model a' = acc_model a)
       \<and> (acc_created a \<noteq> 0 \<longrightarrow> acc_created a' = acc_created a)
       \<and> (truthy_string (acc_systemFingerprint a) \<longrightarrow>
            acc_systemFingerprint a' = acc_systemFingerprint a)"
proof -
  from assms have f: "apply_chunks (consumed JSON_parse stream) a = Inr a'"
    by (simp only: collect_loop_consumed)
  from apply_chunks_latch[OF f] apply_chunks_latched[OF f] show ?thesis by simp
qed

lemma fold_later:
  "collect_loop example_parser [event later_json]
     \<lparr>acc_id = ''c1'', acc_model = ''m1'', acc_created = 1, acc_systemFingerprint = None,
      acc_finishReason = Stop, acc_content = ''Hel'', acc_toolCalls = [], acc_usage = None\<rparr> =
     Inr \<lparr>acc_id = ''c1'', acc_model = ''m1'', acc_created = 1, acc_systemFingerprint = Some ''fp'',
          acc_finishReason = Stop, acc_content = ''Hel'', acc_toolCalls = [], acc_usage = None\<rparr>"
  by (simp add: collect_loop_consumed consumed_parsed example_parser_simps example_data_proper
        eval_chunk)

theorem latched_fields_never_overwritten_witness:
  "collect_loop example_parser [event later_json]
     \<lparr>acc_id = ''c1'', acc_model = ''m1'', acc_created = 1, acc_systemFingerprint = None,
      acc_finishReason = Stop, acc_content = ''Hel'', acc_toolCalls = [], acc_usage = None\<rparr> =
     Inr \<lparr>acc_id = ''c1'', acc_model = ''m1'', acc_created = 1, acc_systemFingerprint = Some ''fp'',
          acc_finishReason = Stop, acc_content = ''Hel'', acc_toolCalls = [], acc_usage = None\<rparr>
   \<and> chunk_id later_chunk = Some ''c2''
   \<and> latch (\<lambda>s. s \<noteq> []) ''c1''
         (map (\<lambda>c. nullish_or (chunk_id c) []) (consumed example_parser [event later_json]))
       = ''c1''
   \<and> latch truthy_string None
         (map chunk_system_fingerprint (consumed example_parser [event later_json]))
       = Some ''fp''"
proof -
  have c: "consumed example_parser [event later_json] = [later_chunk]"
    by (simp add: parseChunkDataOrLog_def truthy_string_def example_parser_simps
          example_data_proper)
  note t = latched_fields_never_overwritten[OF fold_later, unfolded c]
  from t have l1: "latch (\<lambda>s. s \<noteq> []) ''c1''
      (map (\<lambda>c. nullish_or (chunk_id c) []) [later_chunk]) = ''c1''"
    by simp
  from t have l4: "latch truthy_string None (map chunk_system_fingerprint [later_chunk])
      = Some ''fp''"
    by simp
  show ?thesis
    unfolding c by (intro conjI fold_later l1 l4) (simp add: later_chunk_def)
qed

subsection \<open>Chunks of the wrong shape\<close>






subsection \<open>Order of the tool calls\<close>

lemma sort_key_sorted: "sorted (map f xs) \<Longrightarrow> sort_key f xs = xs"
  by (induction xs) (auto simp: insort_is_Cons)

lemma buildResponse_tool_calls:
  "response_tool_calls (buildResponse a) =
     (if acc_toolCalls a = [] then None else Some (Map_values (acc_toolCalls a)))"
  by (simp add: response_tool_calls_def buildResponse_def Map_size_def)

lemma mergeToolCalls_empty_iff: "mergeToolCalls [] ds = [] \<longleftrightarrow> ds = []"
proof -
  have "map fst (mergeToolCalls [] ds) = first_seen (map tcd_index ds) {}"
    using mergeToolCalls_keys[of "[]" ds] by simp
  moreover have "first_seen (map tcd_index ds) {} = [] \<longleftrightarrow> ds = []"
    by (cases ds) auto
  ultimately show ?thesis by (metis map_is_Nil_conv)
qed

lemma response_observed:
  assumes "collectStreamToResponse P stream = Inr r"
  shows "response_tool_calls r =
           (if observed_fragments P stream = [] then None
            else Some (Map_values (mergeToolCalls [] (observed_fragments P stream))))"
proof -
  from assms obtain a where a: "apply_chunks (consumed P stream) createAccumulator = Inr a"
    and r: "r = buildResponse a"
    by (auto simp: collectStreamToResponse_def collect_loop_consumed split: sum.splits)
  have "acc_toolCalls a = mergeToolCalls [] (observed_fragments P stream)"
    using apply_chunks_toolCalls[OF a]
    by (simp add: observed_fragments_def createAccumulator_def)
  then show ?thesis
    by (simp add: r buildResponse_tool_calls mergeToolCalls_empty_iff)
qed

text \<open>
  Claim C2, as the code has it. Whenever the fold returns a response and at least one
  tool-call fragment was observed, \<open>tool_calls\<close> lists the merged entries, one for
  each index, in the order in which the indexes were first observed (the insertion
  order of the map); the field is omitted when no fragment was observed. That order
  is ascending index order when the indexes are first observed in ascending order.
\<close>

theorem tool_calls_in_arrival_order:
  assumes "collectStreamToResponse JSON_parse stream = Inr r"
  shows "response_tool_calls r =
           (if observed_fragments JSON_parse stream = [] then None
            else Some (Map_values (mergeToolCalls [] (observed_fragments JSON_parse stream))))
       \<and> map fst (mergeToolCalls [] (observed_fragments JSON_parse stream)) =
           first_seen (map tcd_index (observed_fragments JSON_parse stream)) {}
       \<and> (sorted (first_seen (map tcd_index (observed_fragments JSON_parse stream)) {}) \<longrightarrow>
            Map_values (mergeToolCalls [] (observed_fragments JSON_parse stream)) =
              sorted_by_index (mergeToolCalls [] (observed_fragments JSON_parse stream)))"
proof (intro conjI impI)
  show "response_tool_calls r =
           (if observed_fragments JSON_parse stream = [] then None
            else Some (Map_values (mergeToolCalls [] (observed_fragments JSON_parse stream))))"
    by (rule response_observed[OF assms])
  show k: "map fst (mergeToolCalls [] (observed_fragments JSON_parse stream)) =
           first_seen (map tcd_index (observed_fragments JSON_parse stream)) {}"
    using mergeToolCalls_keys[of "[]"] by simp
  assume "sorted (first_seen (map tcd_index (observed_fragments JSON_parse stream)) {})"
  with k have "sorted (map fst (mergeToolCalls [] (observed_fragments JSON_parse stream)))"
    by simp
  then show "Map_values (mergeToolCalls [] (observed_fragments JSON_parse stream)) =
              sorted_by_index (mergeToolCalls [] (observed_fragments JSON_parse stream))"
    by (simp add: sorted_by_index_def Map_values_def sort_key_sorted)
qed

lemma observed_b_a:
  "observed_fragments example_parser [event call_b_json, event call_a_json] = [call_b, call_a]"
  by (simp add: observed_fragments_def consumed_parsed example_parser_simps example_data_proper
        parseChunkDataOrLog_def truthy_string_def chunk_fragments_def tool_chunk_def)

lemma observed_a_b:
  "observed_fragments example_parser [event call_a_json, event call_b_json] = [call_a, call_b]"
  by (simp add: observed_fragments_def consumed_parsed example_parser_simps example_data_proper
        parseChunkDataOrLog_def truthy_string_def chunk_fragments_def tool_chunk_def)

lemma fold_a_b:
  "collectStreamToResponse example_parser [event call_a_json, event call_b_json] =
     Inr \<lparr>resp_id = [], resp_object = ''chat.completion'', resp_created = 0, resp_model = [],
          resp_choices =
            [\<lparr>cns_index = 0,
              cns_message =
                \<lparr>msg_role = ''assistant'', msg_content = None,
                 msg_tool_calls =
                   Some [\<lparr>tc_id = ''a'', tc_type = ''function'',
                           tc_function = \<lparr>fn_name = ''f'', fn_arguments = ''{}''\<rparr>\<rparr>,
                         \<lparr>tc_id = ''b'', tc_type = ''function'',
                           tc_function = \<lparr>fn_name = ''g'', fn_arguments = ''{}''\<rparr>\<rparr>]\<rparr>,
              cns_finish_reason = Stop\<rparr>],
          resp_system_fingerprint = None, resp_usage = None\<rparr>"
  by (simp add: collectStreamToResponse_def collect_loop_consumed consumed_parsed
        example_parser_simps example_data_proper eval_chunk)

theorem tool_calls_in_arrival_order_witness:
  "collectStreamToResponse example_parser [event call_a_json, event call_b_json] =
     Inr \<lparr>resp_id = [], resp_object = ''chat.completion'', resp_created = 0, resp_model = [],
          resp_choices =
            [\<lparr>cns_index = 0,
              cns_message =
                \<lparr>msg_role = ''assistant'', msg_content = None,
                 msg_tool_calls =
                   Some [\<lparr>tc_id = ''a'', tc_type = ''function'',
                           tc_function = \<lparr>fn_name = ''f'', fn_arguments = ''{}''\<rparr>\<rparr>,
                         \<lparr>tc_id = ''b'', tc_type = ''function'',
                           tc_function = \<lparr>fn_name = ''g'', fn_arguments = ''{}''\<rparr>\<rparr>]\<rparr>,
              cns_finish_reason = Stop\<rparr>],
          resp_system_fingerprint = None, resp_usage = None\<rparr>
   \<and> first_seen (map tcd_index
         (observed_fragments example_parser [event call_a_json, event call_b_json])) {} = [0, 1]
   \<and> sorted_by_index (mergeToolCalls []
         (observed_fragments example_parser [event call_a_json, event call_b_json])) =
       [\<lparr>tc_id = ''a'', tc_type = ''function'',
          tc_function = \<lparr>fn_name = ''f'', fn_arguments = ''{}''\<rparr>\<rparr>,
        \<lparr>tc_id = ''b'', tc_type = ''function'',
          tc_function = \<lparr>fn_name = ''g'', fn_arguments = ''{}''\<rparr>\<rparr>]"
proof -
  note t = tool_calls_in_arrival_order[OF fold_a_b, unfolded observed_a_b]
  have f: "first_seen (map tcd_index [call_a, call_b]) {} = [0, 1]"
    by (simp add: call_a_def call_b_def)
  note t3 = t[THEN conjunct2, THEN conjunct2, unfolded f]
  have "sorted [0, 1::int]" by simp
  with t3 have "Map_values (mergeToolCalls [] [call_a, call_b]) =
      sorted_by_index (mergeToolCalls [] [call_a, call_b])"
    by (rule mp)
  moreover from t[THEN conjunct1] have "Some [\<lparr>tc_id = ''a'', tc_type = ''function'',
          tc_function = \<lparr>fn_name = ''f'', fn_arguments = ''{}''\<rparr>\<rparr>,
        \<lparr>tc_id = ''b'', tc_type = ''function'',
          tc_function = \<lparr>fn_name = ''g'', fn_arguments = ''{}''\<rparr>\<rparr>]
      = (if [call_a, call_b] = [] then None
         else Some (Map_values (mergeToolCalls [] [call_a, call_b])))"
    by (simp add: response_tool_calls_def)
  ultimately have s: "sorted_by_index (mergeToolCalls [] [call_a, call_b]) =
       [\<lparr>tc_id = ''a'', tc_type = ''function'',
          tc_function = \<lparr>fn_name = ''f'', fn_arguments = ''{}''\<rparr>\<rparr>,
        \<lparr>tc_id = ''b'', tc_type = ''function'',
          tc_function = \<lparr>fn_name = ''g'', fn_arguments = ''{}''\<rparr>\<rparr>]"
    by simp
  show ?thesis unfolding observed_a_b by (intro conjI fold_a_b f s)
qed

text \<open>
  The entries are not sorted: when the fragment of index 1 arrives before the fragment
  of index 0, the response lists the entry of index 1 first.
\<close>

theorem tool_calls_not_sorted_by_index:
  "map_sum id response_tool_calls
     (collectStreamToResponse example_parser [event call_b_json, event call_a_json])
   \<noteq> Inr (Some (sorted_by_index (mergeToolCalls []
         (observed_fragments example_parser [event call_b_json, event call_a_json]))))
   \<and> collectStreamToResponse example_parser [event call_b_json, event call_a_json] =
     Inr \<lparr>resp_id = [], resp_object = ''chat.completion'', resp_created = 0, resp_model = [],
          resp_choices =
            [\<lparr>cns_index = 0,
              cns_message =
                \<lparr>msg_role = ''assistant'', msg_content = None,
                 msg_tool_calls =
                   Some [\<lparr>tc_id = ''b'', tc_type = ''function'',
                           tc_function = \<lparr>fn_name = ''g'', fn_arguments = ''{}''\<rparr>\<rparr>,
                         \<lparr>tc_id = ''a'', tc_type = ''function'',
                           tc_function = \<lparr>fn_name = ''f'', fn_arguments = ''{}''\<rparr>\<rparr>]\<rparr>,
              cns_finish_reason = Stop\<rparr>],
          resp_system_fingerprint = None, resp_usage = None\<rparr>
   \<and> map tcd_index (observed_fragments example_parser [event call_b_json, event call_a_json])
       = [1, 0]
   \<and> sorted_by_index (mergeToolCalls []
         (observed_fragments example_parser [event call_b_json, event call_a_json])) =
       [\<lparr>tc_id = ''a'', tc_type = ''function'',
          tc_function = \<lparr>fn_name = ''f'', fn_arguments = ''{}''\<rparr>\<rparr>,
        \<lparr>tc_id = ''b'', tc_type = ''function'',
          tc_function = \<lparr>fn_name = ''g'', fn_arguments = ''{}''\<rparr>\<rparr>]"
  unfolding observed_b_a
  by (simp add: collectStreamToResponse_def collect_loop_consumed consumed_parsed
        example_parser_simps example_data_proper eval_chunk sorted_by_index_def
        response_tool_calls_def)

subsection \<open>Merging tool-call fragments\<close>

lemma fold_call_open_close:
  assumes "JSON_parse da = Some (Truthy (tool_chunk None [call_open]))"
      and "JSON_parse db = Some (Truthy (tool_chunk None [call_close]))"
      and "da \<noteq> []" "da \<noteq> ''[DONE]''" "db \<noteq> []" "db \<noteq> ''[DONE]''"
  shows \<open>collectStreamToResponse JSON_parse [event da, event db] =
     Inr \<lparr>resp_id = [], resp_object = ''chat.completion'', resp_created = 0, resp_model = [],
          resp_choices =
            [\<lparr>cns_index = 0,
              cns_message =
                \<lparr>msg_role = ''assistant'', msg_content = None,
                 msg_tool_calls =
                   Some [\<lparr>tc_id = ''a'', tc_type = ''function'',
                           tc_function = \<lparr>fn_name = ''f'', fn_arguments = ''{"x":1}''\<rparr>\<rparr>]\<rparr>,
              cns_finish_reason = Stop\<rparr>],
          resp_system_fingerprint = None, resp_usage = None\<rparr>\<close>
proof -
  have "consumed JSON_parse [event da, event db] =
          [tool_chunk None [call_open], tool_chunk None [call_close]]"
    using assms by (simp add: parseChunkDataOrLog_def truthy_string_def)
  then show ?thesis
    by (simp add: collectStreamToResponse_def collect_loop_consumed eval_chunk)
qed

text \<open>
  Claim C5. Tool-call fragments are merged by their index. After merging a list of
  fragments into the map, the entry of an index is determined by the fragments of
  that index alone, in arrival order: the first one creates the entry when the map had
  none (seeding the id and the function name when present, the arguments starting from
  that fragment), and each later one fills in an id or a name that is still empty and
  appends its arguments. The response lists the entries so merged. The events
  \<open>{index:0, id:"a", name:"f", args:"{\"x\":"}\<close> and \<open>{index:0, args:"1}"}\<close> fold to
  the single tool call with id \<open>a\<close>, name \<open>f\<close> and arguments \<open>{"x":1}\<close>.
\<close>

theorem tool_calls_merged_by_index:
  \<open>Map_get (mergeToolCalls toolCalls deltas) i =
     (case Map_get toolCalls i of
        Some e \<Rightarrow> Some (fill_entry e (filter (\<lambda>d. tcd_index d = i) deltas))
      | None \<Rightarrow>
          (if filter (\<lambda>d. tcd_index d = i) deltas = [] then None
           else Some (fill_entry empty_entry (filter (\<lambda>d. tcd_index d = i) deltas))))
   \<and> (collectStreamToResponse JSON_parse stream = Inr r \<longrightarrow>
        response_tool_calls r =
          (if observed_fragments JSON_parse stream = [] then None
           else Some (Map_values (mergeToolCalls [] (observed_fragments JSON_parse stream)))))
   \<and> (JSON_parse da = Some (Truthy (tool_chunk None [call_open]))
        \<and> JSON_parse db = Some (Truthy (tool_chunk None [call_close]))
        \<and> da \<noteq> [] \<and> da \<noteq> ''[DONE]'' \<and> db \<noteq> [] \<and> db \<noteq> ''[DONE]'' \<longrightarrow>
        collectStreamToResponse JSON_parse [event da, event db] =
          Inr \<lparr>resp_id = [], resp_object = ''chat.completion'', resp_created = 0,
               resp_model = [],
               resp_choices =
                 [\<lparr>cns_index = 0,
                   cns_message =
                     \<lparr>msg_role = ''assistant'', msg_content = None,
                      msg_tool_calls =
                        Some [\<lparr>tc_id = ''a'', tc_type = ''function'',
                                tc_function =
                                  \<lparr>fn_name = ''f'', fn_arguments = ''{"x":1}''\<rparr>\<rparr>]\<rparr>,
                   cns_finish_reason = Stop\<rparr>],
               resp_system_fingerprint = None, resp_usage = None\<rparr>)\<close>
proof (intro conjI impI)
  show "Map_get (mergeToolCalls toolCalls deltas) i =
     (case Map_get toolCalls i of
        Some e \<Rightarrow> Some (fill_entry e (filter (\<lambda>d. tcd_index d = i) deltas))
      | None \<Rightarrow>
          (if filter (\<lambda>d. tcd_index d = i) deltas = [] then None
           else Some (fill_entry empty_entry (filter (\<lambda>d. tcd_index d = i) deltas))))"
    by (rule mergeToolCalls_get)
next
  assume "collectStreamToResponse JSON_parse stream = Inr r"
  then show "response_tool_calls r =
          (if observed_fragments JSON_parse stream = [] then None
           else Some (Map_values (mergeToolCalls [] (observed_fragments JSON_parse stream))))"
    by (rule response_observed)
next
  assume "JSON_parse da = Some (Truthy (tool_chunk None [call_open]))
        \<and> JSON_parse db = Some (Truthy (tool_chunk None [call_close]))
        \<and> da \<noteq> [] \<and> da \<noteq> ''[DONE]'' \<and> db \<noteq> [] \<and> db \<noteq> ''[DONE]''"
  then show \<open>collectStreamToResponse JSON_parse [event da, event db] =
          Inr \<lparr>resp_id = [], resp_object = ''chat.completion'', resp_created = 0,
               resp_model = [],
               resp_choices =
                 [\<lparr>cns_index = 0,
                   cns_message =
                     \<lparr>msg_role = ''assistant'', msg_content = None,
                      msg_tool_calls =
                        Some [\<lparr>tc_id = ''a'', tc_type = ''function'',
                                tc_function =
                                  \<lparr>fn_name = ''f'', fn_arguments = ''{"x":1}''\<rparr>\<rparr>]\<rparr>,
                   cns_finish_reason = Stop\<rparr>],
               resp_system_fingerprint = None, resp_usage = None\<rparr>\<close>
    using fold_call_open_close[of JSON_parse da db] by blast
qed

theorem tool_calls_merged_by_index_witness:
  \<open>example_parser call_open_json = Some (Truthy (tool_chunk None [call_open]))
   \<and> example_parser call_close_json = Some (Truthy (tool_chunk None [call_close]))
   \<and> collectStreamToResponse example_parser [event call_open_json, event call_close_json] =
       Inr \<lparr>resp_id = [], resp_object = ''chat.completion'', resp_created = 0,
            resp_model = [],
            resp_choices =
              [\<lparr>cns_index = 0,
                cns_message =
                  \<lparr>msg_role = ''assistant'', msg_content = None,
                   msg_tool_calls =
                     Some [\<lparr>tc_id = ''a'', tc_type = ''function'',
                             tc_function =
                               \<lparr>fn_name = ''f'', fn_arguments = ''{"x":1}''\<rparr>\<rparr>]\<rparr>,
                cns_finish_reason = Stop\<rparr>],
            resp_system_fingerprint = None, resp_usage = None\<rparr>
   \<and> Map_get (mergeToolCalls [] [call_open, call_close]) 0 =
       Some \<lparr>tc_id = ''a'', tc_type = ''function'',
             tc_function = \<lparr>fn_name = ''f'', fn_arguments = ''{"x":1}''\<rparr>\<rparr>\<close>
proof -
  note t = tool_calls_merged_by_index
             [where JSON_parse = example_parser and da = call_open_json and db = call_close_json
                and toolCalls = "[]" and deltas = "[call_open, call_close]" and i = 0
                and stream = "[event call_open_json, event call_close_json]"]
  have p: "example_parser call_open_json = Some (Truthy (tool_chunk None [call_open]))"
          "example_parser call_close_json = Some (Truthy (tool_chunk None [call_close]))"
    by (rule example_parser_simps)+
  from t[THEN conjunct2, THEN conjunct2] p
  have f: \<open>collectStreamToResponse example_parser [event call_open_json, event call_close_json] =
       Inr \<lparr>resp_id = [], resp_object = ''chat.completion'', resp_created = 0,
            resp_model = [],
            resp_choices =
              [\<lparr>cns_index = 0,
                cns_message =
                  \<lparr>msg_role = ''assistant'', msg_content = None,
                   msg_tool_calls =
                     Some [\<lparr>tc_id = ''a'', tc_type = ''function'',
                             tc_function =
                               \<lparr>fn_name = ''f'', fn_arguments = ''{"x":1}''\<rparr>\<rparr>]\<rparr>,
                cns_finish_reason = Stop\<rparr>],
            resp_system_fingerprint = None, resp_usage = None\<rparr>\<close>
    by (simp add: example_data_proper)
  from t[THEN conjunct1]
  have g: \<open>Map_get (mergeToolCalls [] [call_open, call_close]) 0 =
       Some \<lparr>tc_id = ''a'', tc_type = ''function'',
             tc_function = \<lparr>fn_name = ''f'', fn_arguments = ''{"x":1}''\<rparr>\<rparr>\<close>
    by (simp add: Map_get_def call_open_def call_close_def fill_entry_def empty_entry_def
          first_nonempty_def nullish_or_def delta_function_name_def delta_function_arguments_def)
  show ?thesis by (intro conjI p f g)
qed

subsection \<open>Splitting a text delta\<close>

lemma apply_chunks_split_text:
  assumes "text_delta c = Some (s @ t)"
      and "\<forall>f \<in> set (chunk_fragments c). \<not> truthy_string (delta_function_arguments f)"
  shows "apply_chunks (with_content c s # with_content c t # cs) a = apply_chunks (c # cs) a"
  using split_text_step[OF assms, of a]
  by (auto split: sum.splits)

lemma with_content_text_chunk: "with_content (text_chunk s) t = text_chunk t"
  by (simp add: with_content_def text_chunk_def)

lemma with_content_tool_chunk: "with_content (tool_chunk x fs) t = tool_chunk (Some t) fs"
  by (simp add: with_content_def tool_chunk_def)

text \<open>
  Claim C3, as the code has it. The fold is a function of the parser and the event
  sequence. Replacing one event that carries a text delta by two consecutive events
  whose texts concatenate to the same text, all other fields equal, gives the same
  response, provided the tool-call fragments the event carries, if any, have no
  arguments to append: the other fields of a chunk are latched or overwritten, so
  that applying them twice is applying them once, but arguments are appended each
  time.
\<close>

theorem text_delta_split_same_response:
  assumes "text_delta c = Some (s @ t)"
      and "\<forall>f \<in> set (chunk_fragments c). \<not> truthy_string (delta_function_arguments f)"
      and "JSON_parse d = Some (Truthy c)"
      and "JSON_parse da = Some (Truthy (with_content c s))"
      and "JSON_parse db = Some (Truthy (with_content c t))"
      and "d \<noteq> []" "d \<noteq> ''[DONE]''" "da \<noteq> []" "da \<noteq> ''[DONE]''" "db \<noteq> []" "db \<noteq> ''[DONE]''"
  shows "collectStreamToResponse JSON_parse (pre @ event da # event db # post) =
         collectStreamToResponse JSON_parse (pre @ event d # post)"
proof -
  have 1: "consumed JSON_parse (event d # post) = c # consumed JSON_parse post"
    using assms consumed_parsed[of JSON_parse d c post] by blast
  have "consumed JSON_parse (event db # post) = with_content c t # consumed JSON_parse post"
    using assms consumed_parsed[of JSON_parse db "with_content c t" post] by blast
  then have 2: "consumed JSON_parse (event da # event db # post) =
      with_content c s # with_content c t # consumed JSON_parse post"
    using assms consumed_parsed[of JSON_parse da "with_content c s" "event db # post"] by simp
  have "apply_chunks (consumed JSON_parse (pre @ event da # event db # post)) createAccumulator =
        apply_chunks (consumed JSON_parse (pre @ event d # post)) createAccumulator"
  proof (cases "Some ''[DONE]'' \<in> sse_data ` set pre")
    case True
    then show ?thesis by (simp only: consumed_append if_True)
  next
    case False
    then show ?thesis
      by (simp only: consumed_append if_False 1 2 apply_chunks_append
            apply_chunks_split_text[OF assms(1,2)])
  qed
  then show ?thesis
    by (simp only: collectStreamToResponse_def collect_loop_consumed)
qed

theorem text_delta_split_same_response_witness:
  "text_delta (text_chunk ''Hello'') = Some (''Hel'' @ ''lo'')
   \<and> chunk_fragments (text_chunk ''Hello'') = []
   \<and> example_parser (text_json ''Hello'') = Some (Truthy (text_chunk ''Hello''))
   \<and> example_parser (text_json ''Hel'') = Some (Truthy (with_content (text_chunk ''Hello'') ''Hel''))
   \<and> example_parser (text_json ''lo'') = Some (Truthy (with_content (text_chunk ''Hello'') ''lo''))
   \<and> collectStreamToResponse example_parser [event (text_json ''Hel''), event (text_json ''lo'')] =
       collectStreamToResponse example_parser [event (text_json ''Hello'')]"
proof -
  have a: "text_delta (text_chunk ''Hello'') = Some (''Hel'' @ ''lo'')"
    by (simp add: text_delta_def text_chunk_def)
  have b: "chunk_fragments (text_chunk ''Hello'') = []"
    by (simp add: chunk_fragments_def text_chunk_def)
  then have b': "\<forall>f \<in> set (chunk_fragments (text_chunk ''Hello'')).
      \<not> truthy_string (delta_function_arguments f)"
    by simp
  have p: "example_parser (text_json ''Hello'') = Some (Truthy (text_chunk ''Hello''))"
    "example_parser (text_json ''Hel'') = Some (Truthy (with_content (text_chunk ''Hello'') ''Hel''))"
    "example_parser (text_json ''lo'') = Some (Truthy (with_content (text_chunk ''Hello'') ''lo''))"
    by (simp_all only: with_content_text_chunk example_parser_simps)
  have "collectStreamToResponse example_parser
          ([] @ event (text_json ''Hel'') # event (text_json ''lo'') # []) =
        collectStreamToResponse example_parser ([] @ event (text_json ''Hello'') # [])"
    by (rule text_delta_split_same_response
              [where JSON_parse = example_parser and c = "text_chunk ''Hello''"
                 and s = "''Hel''" and t = "''lo''", OF a b' p])
       (rule example_data_proper)+
  then have e: "collectStreamToResponse example_parser
          [event (text_json ''Hel''), event (text_json ''lo'')] =
        collectStreamToResponse example_parser [event (text_json ''Hello'')]"
    by (simp only: append_Nil)
  show ?thesis by (intro conjI a b p e)
qed

text \<open>
  The claim as the spec states it fails on an event that carries, next to its text, a
  tool-call fragment with arguments: both halves carry the fragment, and its
  arguments are appended twice.
\<close>

theorem text_delta_split_doubles_arguments:
  "text_delta (tool_chunk (Some ''ab'') [call_a]) = Some (''a'' @ ''b'')
   \<and> example_parser (mixed_json ''ab'') = Some (Truthy (tool_chunk (Some ''ab'') [call_a]))
   \<and> example_parser (mixed_json ''a'') =
       Some (Truthy (with_content (tool_chunk (Some ''ab'') [call_a]) ''a''))
   \<and> example_parser (mixed_json ''b'') =
       Some (Truthy (with_content (tool_chunk (Some ''ab'') [call_a]) ''b''))
   \<and> collectStreamToResponse example_parser [event (mixed_json ''ab'')] =
       Inr \<lparr>resp_id = [], resp_object = ''chat.completion'', resp_created = 0, resp_model = [],
          resp_choices =
            [\<lparr>cns_index = 0,
              cns_message =
                \<lparr>msg_role = ''assistant'', msg_content = Some ''ab'',
                 msg_tool_calls =
                   Some [\<lparr>tc_id = ''a'', tc_type = ''function'',
                           tc_function = \<lparr>fn_name = ''f'', fn_arguments = ''{}''\<rparr>\<rparr>]\<rparr>,
              cns_finish_reason = Stop\<rparr>],
          resp_system_fingerprint = None, resp_usage = None\<rparr>
   \<and> collectStreamToResponse example_parser [event (mixed_json ''a''), event (mixed_json ''b'')] =
       Inr \<lparr>resp_id = [], resp_object = ''chat.completion'', resp_created = 0, resp_model = [],
          resp_choices =
            [\<lparr>cns_index = 0,
              cns_message =
                \<lparr>msg_role = ''assistant'', msg_content = Some ''ab'',
                 msg_tool_calls =
                   Some [\<lparr>tc_id = ''a'', tc_type = ''function'',
                           tc_function = \<lparr>fn_name = ''f'', fn_arguments = ''{}{}''\<rparr>\<rparr>]\<rparr>,
              cns_finish_reason = Stop\<rparr>],
          resp_system_fingerprint = None, resp_usage = None\<rparr>
   \<and> collectStreamToResponse example_parser [event (mixed_json ''a''), event (mixed_json ''b'')]
       \<noteq> collectStreamToResponse example_parser [event (mixed_json ''ab'')]"
proof -
  have a: "text_delta (tool_chunk (Some ''ab'') [call_a]) = Some (''a'' @ ''b'')"
    by (simp add: text_delta_def tool_chunk_def)
  have p: "example_parser (mixed_json ''ab'') = Some (Truthy (tool_chunk (Some ''ab'') [call_a]))"
    "example_parser (mixed_json ''a'') =
       Some (Truthy (with_content (tool_chunk (Some ''ab'') [call_a]) ''a''))"
    "example_parser (mixed_json ''b'') =
       Some (Truthy (with_content (tool_chunk (Some ''ab'') [call_a]) ''b''))"
    by (simp_all only: with_content_tool_chunk example_parser_simps)
  have f: "collectStreamToResponse example_parser [event (mixed_json ''ab'')] =
       Inr \<lparr>resp_id = [], resp_object = ''chat.completion'', resp_created = 0, resp_model = [],
          resp_choices =
            [\<lparr>cns_index = 0,
              cns_message =
                \<lparr>msg_role = ''assistant'', msg_content = Some ''ab'',
                 msg_tool_calls =
                   Some [\<lparr>tc_id = ''a'', tc_type = ''function'',
                           tc_function = \<lparr>fn_name = ''f'', fn_arguments = ''{}''\<rparr>\<rparr>]\<rparr>,
              cns_finish_reason = Stop\<rparr>],
          resp_system_fingerprint = None, resp_usage = None\<rparr>"
    by (simp add: collectStreamToResponse_def collect_loop_consumed consumed_parsed
          example_parser_simps example_data_proper eval_chunk)
  have g: "collectStreamToResponse example_parser
         [event (mixed_json ''a''), event (mixed_json ''b'')] =
       Inr \<lparr>resp_id = [], resp_object = ''chat.completion'', resp_created = 0, resp_model = [],
          resp_choices =
            [\<lparr>cns_index = 0,
              cns_message =
                \<lparr>msg_role = ''assistant'', msg_content = Some ''ab'',
                 msg_tool_calls =
                   Some [\<lparr>tc_id = ''a'', tc_type = ''function'',
                           tc_function = \<lparr>fn_name = ''f'', fn_arguments = ''{}{}''\<rparr>\<rparr>]\<rparr>,
              cns_finish_reason = Stop\<rparr>],
          resp_system_fingerprint = None, resp_usage = None\<rparr>"
    by (simp add: collectStreamToResponse_def collect_loop_consumed consumed_parsed
          example_parser_simps example_data_proper eval_chunk)
  have n: "collectStreamToResponse example_parser
         [event (mixed_json ''a''), event (mixed_json ''b'')]
       \<noteq> collectStreamToResponse example_parser [event (mixed_json ''ab'')]"
    unfolding f g by simp
  show ?thesis by (intro conjI a p f g n)
qed

section \<open>Verification: upstream relay\<close>

subsection \<open>The trace of a call\<close>

lemma requests_sent_append: "requests_sent (xs @ ys) = requests_sent xs @ requests_sent ys"
  by (induction xs rule: requests_sent.induct) auto

lemma emit_trace [simp]: "w_trace (emit e w) = w_trace w @ [e]"
  by (simp add: emit_def)

lemma emit_state [simp]: "w_state (emit e w) = w_state w"
  by (simp add: emit_def)

lemma doFetch_world:
  "snd (doFetch E payload so w) =
     (if truthy_string (copilotToken (w_state w))
      then emit (Call_fetch (doFetch_request E (w_state w) payload so)) (emit Call_doFetch w)
      else emit Call_doFetch w)"
  by (simp add: doFetch_def Let_def)

lemma doFetch_result:
  "fst (doFetch E payload so w) =
     (if truthy_string (copilotToken (w_state w))
      then fetch E (w_trace w @ [Call_doFetch]) (doFetch_request E (w_state w) payload so)
      else Inl TokenNotFound)"
  by (simp add: doFetch_def Let_def)

lemma doFetch_request_body:
  "req_body (doFetch_request E st payload so) =
     payload\<lparr>p_model := normalizeModelName (p_model payload),
             p_stream := (case so of None \<Rightarrow> p_stream payload | Some s \<Rightarrow> Some s)\<rparr>"
  by (cases so) (simp_all add: doFetch_request_def Let_def)


lemma new_effects_append: "w_trace w' = w_trace w @ es \<Longrightarrow> new_effects w w' = es"
  by (simp add: new_effects_def)

lemma doFetch_cases:
  assumes "doFetch E payload so w = (res, w')"
  shows "w_state w' = w_state w"
    and "\<not> truthy_string (copilotToken (w_state w)) \<Longrightarrow>
           res = Inl TokenNotFound \<and> w_trace w' = w_trace w @ [Call_doFetch]"
    and "truthy_string (copilotToken (w_state w)) \<Longrightarrow>
           res = fetch E (w_trace w @ [Call_doFetch]) (doFetch_request E (w_state w) payload so)
           \<and> w_trace w' =
               w_trace w @ [Call_doFetch, Call_fetch (doFetch_request E (w_state w) payload so)]"
  using assms by (auto simp: doFetch_def Let_def split: if_splits)

lemma doFetch_Inr:
  assumes "doFetch E payload so w = (Inr r, w')"
  shows "w_state w' = w_state w"
    and "w_trace w' =
           w_trace w @ [Call_doFetch, Call_fetch (doFetch_request E (w_state w) payload so)]"
  using assms by (auto simp: doFetch_def Let_def split: if_splits)

lemma doFetch_new:
  assumes "doFetch E payload so w = (res, w')"
  shows "\<exists>es. w_trace w' = w_trace w @ es \<and> doFetch_calls es = 1 \<and> refresh_calls es = 0
           \<and> set (requests_sent es) \<subseteq> {doFetch_request E (w_state w) payload so}
           \<and> (truthy_string (copilotToken (w_state w)) \<longrightarrow> requests_sent es \<noteq> [])"
  using assms
  by (auto simp: doFetch_def Let_def doFetch_calls_def refresh_calls_def split: if_splits)

lemma refresh_cases:
  assumes "refreshCopilotTokenOnError E (w_trace w) (w_state w) = (refreshed, st')"
  shows "refresh E w = (refreshed, emit Call_refresh (w\<lparr>w_state := st'\<rparr>))"
  using assms by (simp add: refresh_def)

lemma unauthorized_not_ok: "status r = 401 \<Longrightarrow> \<not> ok r"
  by (simp add: ok_def)

lemma ccs_first_401:
  assumes f: "doFetch E payload (Some True) w = (Inr r1, w1)" and u: "status r1 = 401"
      and r: "refreshCopilotTokenOnError E (w_trace w1) (w_state w1) = (refreshed, st')"
  shows "\<not> refreshed \<Longrightarrow>
           createChatCompletionsStream E payload w =
             (Inl (HTTPError r1), emit Call_refresh (w1\<lparr>w_state := st'\<rparr>))"
    and "refreshed \<Longrightarrow>
           createChatCompletionsStream E payload w =
             (case doFetch E payload (Some True) (emit Call_refresh (w1\<lparr>w_state := st'\<rparr>)) of
                (Inl e, w3) \<Rightarrow> (Inl e, w3)
              | (Inr r2, w3) \<Rightarrow>
                  (if ok r2 then Inr (body r2) else Inl (HTTPError r2), w3))"
  by (auto simp: createChatCompletionsStream_def f u refresh_cases[OF r] unauthorized_not_ok
        split: prod.splits sum.splits)

lemma ccs_first_other:
  assumes f: "doFetch E payload (Some True) w = (Inr r1, w1)" and u: "status r1 \<noteq> 401"
  shows "createChatCompletionsStream E payload w =
           (if ok r1 then Inr (body r1) else Inl (HTTPError r1), w1)"
  by (simp add: createChatCompletionsStream_def f u)

lemma calls_append:
  "doFetch_calls (xs @ ys) = doFetch_calls xs + doFetch_calls ys"
  "refresh_calls (xs @ ys) = refresh_calls xs + refresh_calls ys"
  by (simp_all add: doFetch_calls_def refresh_calls_def)

lemma calls_simps:
  "doFetch_calls [] = 0" "refresh_calls [] = 0"
  "doFetch_calls (Call_doFetch # es) = Suc (doFetch_calls es)"
  "doFetch_calls (Call_fetch r # es) = doFetch_calls es"
  "doFetch_calls (Call_refresh # es) = doFetch_calls es"
  "refresh_calls (Call_doFetch # es) = refresh_calls es"
  "refresh_calls (Call_fetch r # es) = refresh_calls es"
  "refresh_calls (Call_refresh # es) = Suc (refresh_calls es)"
  by (simp_all add: doFetch_calls_def refresh_calls_def)

lemma ccs_401_trace:
  assumes f: "doFetch E payload (Some True) w = (Inr r1, w1)" and u: "status r1 = 401"
      and r: "refreshCopilotTokenOnError E (w_trace w1) (w_state w1) = (refreshed, st')"
  shows "\<exists>es. new_effects w (snd (createChatCompletionsStream E payload w)) =
             [Call_doFetch, Call_fetch (doFetch_request E (w_state w) payload (Some True)),
              Call_refresh] @ es
           \<and> refresh_calls es = 0
           \<and> doFetch_calls es = (if refreshed then 1 else 0)"
proof (cases refreshed)
  case False
  have "w_trace (snd (createChatCompletionsStream E payload w)) =
          w_trace w @ [Call_doFetch, Call_fetch (doFetch_request E (w_state w) payload (Some True)),
              Call_refresh] @ []"
    using ccs_first_401(1)[OF f u r] False doFetch_Inr(2)[OF f] by simp
  then show ?thesis using False by (auto dest!: new_effects_append simp: calls_simps)
next
  case True
  let ?w2 = "emit Call_refresh (w1\<lparr>w_state := st'\<rparr>)"
  obtain res w3 where d: "doFetch E payload (Some True) ?w2 = (res, w3)"
    by (cases "doFetch E payload (Some True) ?w2")
  from doFetch_new[OF d] obtain es where
    es: "w_trace w3 = w_trace ?w2 @ es" "doFetch_calls es = 1" "refresh_calls es = 0"
    by blast
  have "snd (createChatCompletionsStream E payload w) = w3"
    using ccs_first_401(2)[OF f u r True] d by (cases res) simp_all
  then have "w_trace (snd (createChatCompletionsStream E payload w)) =
          w_trace w @ [Call_doFetch, Call_fetch (doFetch_request E (w_state w) payload (Some True)),
              Call_refresh] @ es"
    using es(1) doFetch_Inr(2)[OF f] by simp
  then show ?thesis using True es(2,3) by (auto dest!: new_effects_append)
qed


subsection \<open>The example upstream\<close>

lemma example_doFetch_request:
  "doFetch_request (example_env b t) \<lparr>copilotToken = Some tok, models = ms, manualApprove = ma\<rparr>
     (example_payload flag\<lparr>p_max_tokens := mt\<rparr>) (Some True)
   = (example_request tok)\<lparr>req_body := (req_body (example_request tok))\<lparr>p_max_tokens := mt\<rparr>\<rparr>"
  by (simp add: doFetch_request_def example_env_def example_payload_def example_request_def
        Let_def has_image_def normalizeModelName_def modelAliases_def nullish_or_def)

lemma example_fetch:
  "fetch (example_env b t) tr ((example_request tok)\<lparr>req_body := x\<rparr>) =
     (if tok = ''good''
      then Inr \<lparr>status = 200, body = [event (text_json ''Hello''), event ''[DONE]'']\<rparr>
      else Inr \<lparr>status = 401, body = []\<rparr>)"
  by (simp add: example_env_def example_request_def Map_get_def)

lemma example_doFetch:
  "tok \<noteq> [] \<Longrightarrow>
   doFetch (example_env b t) (example_payload flag)  (Some True)
     \<lparr>w_state = \<lparr>copilotToken = Some tok, models = None, manualApprove = False\<rparr>, w_trace = tr\<rparr>
   = ((if tok = ''good''
       then Inr \<lparr>status = 200, body = [event (text_json ''Hello''), event ''[DONE]'']\<rparr>
       else Inr \<lparr>status = 401, body = []\<rparr>),
      \<lparr>w_state = \<lparr>copilotToken = Some tok, models = None, manualApprove = False\<rparr>,
       w_trace = tr @ [Call_doFetch, Call_fetch (example_request tok)]\<rparr>)"
proof -
  assume t: "tok \<noteq> []"
  have p: "example_payload flag\<lparr>p_max_tokens := None\<rparr> = example_payload flag"
    by (simp add: example_payload_def)
  have q: "(example_request tok)\<lparr>req_body := (req_body (example_request tok))\<lparr>p_max_tokens := None\<rparr>\<rparr>
            = example_request tok"
    by (simp add: example_request_def)
  have r: "doFetch_request (example_env b t)
             \<lparr>copilotToken = Some tok, models = None, manualApprove = False\<rparr>
             (example_payload flag) (Some True) = example_request tok"
    using example_doFetch_request
            [where b = b and t = t and tok = tok and ms = None and ma = False and flag = flag
               and mt = None]
    by (simp only: p q)
  have f: "fetch (example_env b t) (tr @ [Call_doFetch]) (example_request tok) =
     (if tok = ''good''
      then Inr \<lparr>status = 200, body = [event (text_json ''Hello''), event ''[DONE]'']\<rparr>
      else Inr \<lparr>status = 401, body = []\<rparr>)"
    using example_fetch[where b = b and t = t and tok = tok and tr = "tr @ [Call_doFetch]"
            and x = "req_body (example_request tok)"]
    by simp
  show ?thesis
    using t by (simp add: doFetch_def Let_def emit_def truthy_string_def r f)
qed


lemma example_first_attempt:
  "doFetch (example_env b t) (example_payload flag) (Some True) (example_world ''stale'') =
     (Inr \<lparr>status = 401, body = []\<rparr>,
      \<lparr>w_state = \<lparr>copilotToken = Some ''stale'', models = None, manualApprove = False\<rparr>,
       w_trace = [Call_doFetch, Call_fetch (example_request ''stale'')]\<rparr>)"
  using example_doFetch[where tok = "''stale''" and tr = "[]" and b = b and t = t and flag = flag]
  by (simp add: example_world_def)

lemma example_refresh:
  "refreshCopilotTokenOnError (example_env b t) tr
     \<lparr>copilotToken = Some ''stale'', models = None, manualApprove = False\<rparr> =
   (b, \<lparr>copilotToken = Some (if b then t else ''stale''), models = None, manualApprove = False\<rparr>)"
  by (simp add: example_env_def)

lemma example_second_attempt:
  "t \<noteq> [] \<Longrightarrow>
   doFetch (example_env b t) (example_payload flag) (Some True)
     (emit Call_refresh
        (\<lparr>w_state = \<lparr>copilotToken = Some ''stale'', models = None, manualApprove = False\<rparr>,
          w_trace = [Call_doFetch, Call_fetch (example_request ''stale'')]\<rparr>
         \<lparr>w_state := \<lparr>copilotToken = Some t, models = None, manualApprove = False\<rparr>\<rparr>)) =
     ((if t = ''good''
       then Inr \<lparr>status = 200, body = [event (text_json ''Hello''), event ''[DONE]'']\<rparr>
       else Inr \<lparr>status = 401, body = []\<rparr>),
      \<lparr>w_state = \<lparr>copilotToken = Some t, models = None, manualApprove = False\<rparr>,
       w_trace = [Call_doFetch, Call_fetch (example_request ''stale''), Call_refresh,
                  Call_doFetch, Call_fetch (example_request t)]\<rparr>)"
  using example_doFetch[where tok = t and b = b and t = t and flag = flag
          and tr = "[Call_doFetch, Call_fetch (example_request ''stale''), Call_refresh]"]
  by (simp add: emit_def)


subsection \<open>Refresh and retry\<close>

text \<open>
  Claim C1. Let the first attempt of \<open>createChatCompletionsStream\<close> return a response
  \<open>r1\<close>. If its status is 401, \<open>refreshCopilotTokenOnError\<close> is called exactly once;
  \<open>doFetch\<close> is invoked exactly once more if the refresh reports success and not again
  otherwise. When the refresh fails the error carries the original 401 response. When
  it succeeds the outcome is that of the second invocation alone: its events if the
  response is ok and else the error carrying that response, so that a second 401 is
  the request's error, with no further refresh. If the status is not 401 there is no
  refresh and no second invocation.
\<close>

theorem unauthorized_refresh_retry_once:
  assumes "doFetch E payload (Some True) w = (Inr r1, w1)"
      and "refreshCopilotTokenOnError E (w_trace w1) (w_state w1) = (refreshed, st')"
  shows "(status r1 = 401 \<longrightarrow>
            refresh_calls (new_effects w (snd (createChatCompletionsStream E payload w))) = 1
          \<and> doFetch_calls (new_effects w (snd (createChatCompletionsStream E payload w))) =
              (if refreshed then 2 else 1)
          \<and> (\<not> refreshed \<longrightarrow> fst (createChatCompletionsStream E payload w) = Inl (HTTPError r1))
          \<and> (refreshed \<longrightarrow>
               createChatCompletionsStream E payload w =
                 (case doFetch E payload (Some True) (emit Call_refresh (w1\<lparr>w_state := st'\<rparr>)) of
                    (Inl e, w3) \<Rightarrow> (Inl e, w3)
                  | (Inr r2, w3) \<Rightarrow>
                      (if ok r2 then Inr (body r2) else Inl (HTTPError r2), w3)))
          \<and> (\<forall>r2 w3. refreshed
                 \<and> doFetch E payload (Some True) (emit Call_refresh (w1\<lparr>w_state := st'\<rparr>))
                     = (Inr r2, w3)
                 \<and> status r2 = 401 \<longrightarrow>
               fst (createChatCompletionsStream E payload w) = Inl (HTTPError r2)))
       \<and> (status r1 \<noteq> 401 \<longrightarrow>
            refresh_calls (new_effects w (snd (createChatCompletionsStream E payload w))) = 0
          \<and> doFetch_calls (new_effects w (snd (createChatCompletionsStream E payload w))) = 1
          \<and> fst (createChatCompletionsStream E payload w) =
              (if ok r1 then Inr (body r1) else Inl (HTTPError r1)))"
proof (intro conjI impI allI)
  assume u: "status r1 = 401"
  from ccs_401_trace[OF assms(1) u assms(2)] obtain es where
    es: "new_effects w (snd (createChatCompletionsStream E payload w)) =
             [Call_doFetch, Call_fetch (doFetch_request E (w_state w) payload (Some True)),
              Call_refresh] @ es"
        "refresh_calls es = 0" "doFetch_calls es = (if refreshed then 1 else 0)"
    by blast
  show "refresh_calls (new_effects w (snd (createChatCompletionsStream E payload w))) = 1"
    by (simp add: es calls_simps)
  show "doFetch_calls (new_effects w (snd (createChatCompletionsStream E payload w))) =
              (if refreshed then 2 else 1)"
    by (simp add: es calls_simps)
  show "\<not> refreshed \<Longrightarrow> fst (createChatCompletionsStream E payload w) = Inl (HTTPError r1)"
    using ccs_first_401(1)[OF assms(1) u assms(2)] by simp
  show "refreshed \<Longrightarrow>
               createChatCompletionsStream E payload w =
                 (case doFetch E payload (Some True) (emit Call_refresh (w1\<lparr>w_state := st'\<rparr>)) of
                    (Inl e, w3) \<Rightarrow> (Inl e, w3)
                  | (Inr r2, w3) \<Rightarrow>
                      (if ok r2 then Inr (body r2) else Inl (HTTPError r2), w3))"
    by (rule ccs_first_401(2)[OF assms(1) u assms(2)])
  show "fst (createChatCompletionsStream E payload w) = Inl (HTTPError r2)"
    if "refreshed
                 \<and> doFetch E payload (Some True) (emit Call_refresh (w1\<lparr>w_state := st'\<rparr>))
                     = (Inr r2, w3)
                 \<and> status r2 = 401" for r2 w3
    using that ccs_first_401(2)[OF assms(1) u assms(2)] by (simp add: unauthorized_not_ok)
next
  assume u: "status r1 \<noteq> 401"
  note c = ccs_first_other[OF assms(1) u]
  have n: "new_effects w (snd (createChatCompletionsStream E payload w)) =
      [Call_doFetch, Call_fetch (doFetch_request E (w_state w) payload (Some True))]"
    using doFetch_Inr(2)[OF assms(1)] by (simp add: c new_effects_append)
  show "refresh_calls (new_effects w (snd (createChatCompletionsStream E payload w))) = 0"
    by (simp add: n calls_simps)
  show "doFetch_calls (new_effects w (snd (createChatCompletionsStream E payload w))) = 1"
    by (simp add: n calls_simps)
  show "fst (createChatCompletionsStream E payload w) =
              (if ok r1 then Inr (body r1) else Inl (HTTPError r1))"
    by (simp add: c)
qed

theorem unauthorized_refresh_retry_once_witness:
  "fst (doFetch (example_env True ''good'') (example_payload None) (Some True)
          (example_world ''stale'')) = Inr \<lparr>status = 401, body = []\<rparr>
   \<and> fst (createChatCompletionsStream (example_env True ''good'') (example_payload None)
            (example_world ''stale'')) = Inr [event (text_json ''Hello''), event ''[DONE]'']
   \<and> refresh_calls (new_effects (example_world ''stale'')
         (snd (createChatCompletionsStream (example_env True ''good'') (example_payload None)
                 (example_world ''stale'')))) = 1
   \<and> doFetch_calls (new_effects (example_world ''stale'')
         (snd (createChatCompletionsStream (example_env True ''good'') (example_payload None)
                 (example_world ''stale'')))) = 2
   \<and> fst (createChatCompletionsStream (example_env True ''bad'') (example_payload None)
            (example_world ''stale'')) = Inl (HTTPError \<lparr>status = 401, body = []\<rparr>)
   \<and> refresh_calls (new_effects (example_world ''stale'')
         (snd (createChatCompletionsStream (example_env True ''bad'') (example_payload None)
                 (example_world ''stale'')))) = 1
   \<and> doFetch_calls (new_effects (example_world ''stale'')
         (snd (createChatCompletionsStream (example_env True ''bad'') (example_payload None)
                 (example_world ''stale'')))) = 2
   \<and> fst (createChatCompletionsStream (example_env False ''good'') (example_payload None)
            (example_world ''stale'')) = Inl (HTTPError \<lparr>status = 401, body = []\<rparr>)
   \<and> refresh_calls (new_effects (example_world ''stale'')
         (snd (createChatCompletionsStream (example_env False ''good'') (example_payload None)
                 (example_world ''stale'')))) = 1
   \<and> doFetch_calls (new_effects (example_world ''stale'')
         (snd (createChatCompletionsStream (example_env False ''good'') (example_payload None)
                 (example_world ''stale'')))) = 1"
proof -
  let ?W1 = "\<lparr>w_state = \<lparr>copilotToken = Some ''stale'', models = None, manualApprove = False\<rparr>,
       w_trace = [Call_doFetch, Call_fetch (example_request ''stale'')]\<rparr>"
  let ?r1 = "\<lparr>status = 401, body = []\<rparr>"
  have u: "status ?r1 = 401" by simp
  have rf: "refreshCopilotTokenOnError (example_env b t) (w_trace ?W1) (w_state ?W1) =
      (b, \<lparr>copilotToken = Some (if b then t else ''stale''), models = None,
           manualApprove = False\<rparr>)" for b t
    using example_refresh[where b = b and t = t] by simp
  note good = unauthorized_refresh_retry_once
      [OF example_first_attempt[where b = True and t = "''good''" and flag = None]
          rf[where b = True and t = "''good''"], THEN conjunct1, THEN mp, OF u]
  note bad = unauthorized_refresh_retry_once
      [OF example_first_attempt[where b = True and t = "''bad''" and flag = None]
          rf[where b = True and t = "''bad''"], THEN conjunct1, THEN mp, OF u]
  note failed = unauthorized_refresh_retry_once
      [OF example_first_attempt[where b = False and t = "''good''" and flag = None]
          rf[where b = False and t = "''good''"], THEN conjunct1, THEN mp, OF u]
  have a: "fst (doFetch (example_env True ''good'') (example_payload None) (Some True)
          (example_world ''stale'')) = Inr \<lparr>status = 401, body = []\<rparr>"
    by (simp add: example_first_attempt)
  have g1: "refresh_calls (new_effects (example_world ''stale'')
         (snd (createChatCompletionsStream (example_env True ''good'') (example_payload None)
                 (example_world ''stale'')))) = 1"
    using good[THEN conjunct1] .
  have g2: "doFetch_calls (new_effects (example_world ''stale'')
         (snd (createChatCompletionsStream (example_env True ''good'') (example_payload None)
                 (example_world ''stale'')))) = 2"
    using good[THEN conjunct2, THEN conjunct1] by simp
  have g3: "fst (createChatCompletionsStream (example_env True ''good'') (example_payload None)
            (example_world ''stale'')) = Inr [event (text_json ''Hello''), event ''[DONE]'']"
    using good[THEN conjunct2, THEN conjunct2, THEN conjunct2, THEN conjunct1]
          example_second_attempt[where t = "''good''" and b = True and flag = None]
    by (simp add: ok_def)
  have b1: "refresh_calls (new_effects (example_world ''stale'')
         (snd (createChatCompletionsStream (example_env True ''bad'') (example_payload None)
                 (example_world ''stale'')))) = 1"
    using bad[THEN conjunct1] .
  have b2: "doFetch_calls (new_effects (example_world ''stale'')
         (snd (createChatCompletionsStream (example_env True ''bad'') (example_payload None)
                 (example_world ''stale'')))) = 2"
    using bad[THEN conjunct2, THEN conjunct1] by simp
  have b3: "fst (createChatCompletionsStream (example_env True ''bad'') (example_payload None)
            (example_world ''stale'')) = Inl (HTTPError \<lparr>status = 401, body = []\<rparr>)"
    using bad[THEN conjunct2, THEN conjunct2, THEN conjunct2, THEN conjunct1]
          example_second_attempt[where t = "''bad''" and b = True and flag = None]
    by (simp add: ok_def)
  have f1: "refresh_calls (new_effects (example_world ''stale'')
         (snd (createChatCompletionsStream (example_env False ''good'') (example_payload None)
                 (example_world ''stale'')))) = 1"
    using failed[THEN conjunct1] .
  have f2: "doFetch_calls (new_effects (example_world ''stale'')
         (snd (createChatCompletionsStream (example_env False ''good'') (example_payload None)
                 (example_world ''stale'')))) = 1"
    using failed[THEN conjunct2, THEN conjunct1] by simp
  have f3: "fst (createChatCompletionsStream (example_env False ''good'') (example_payload None)
            (example_world ''stale'')) = Inl (HTTPError \<lparr>status = 401, body = []\<rparr>)"
    using failed[THEN conjunct2, THEN conjunct2, THEN conjunct1] by simp
  show ?thesis by (intro conjI a g3 g1 g2 b3 b1 b2 f3 f1 f2)
qed

subsection \<open>The requests a call sends\<close>

lemma ccs_new:
  "\<exists>es. w_trace (snd (createChatCompletionsStream E payload w)) = w_trace w @ es
     \<and> (\<forall>r \<in> set (requests_sent es). \<exists>st. r = doFetch_request E st payload (Some True))
     \<and> (truthy_string (copilotToken (w_state w)) \<longrightarrow> requests_sent es \<noteq> [])"
proof -
  obtain res1 w1 where d1: "doFetch E payload (Some True) w = (res1, w1)"
    by (cases "doFetch E payload (Some True) w")
  from doFetch_new[OF d1] obtain es1 where
    es1: "w_trace w1 = w_trace w @ es1"
         "set (requests_sent es1) \<subseteq> {doFetch_request E (w_state w) payload (Some True)}"
         "truthy_string (copilotToken (w_state w)) \<longrightarrow> requests_sent es1 \<noteq> []"
    by blast
  have base: "\<forall>r \<in> set (requests_sent es1). \<exists>st. r = doFetch_request E st payload (Some True)"
    using es1(2) by blast
  show ?thesis
  proof (cases res1)
    case (Inl e)
    then have "snd (createChatCompletionsStream E payload w) = w1"
      by (simp add: createChatCompletionsStream_def d1)
    with es1 base show ?thesis by auto
  next
    case (Inr r1)
    note f = d1[unfolded Inr]
    show ?thesis
    proof (cases "status r1 = 401")
      case False
      then have "snd (createChatCompletionsStream E payload w) = w1"
        by (simp add: ccs_first_other[OF f])
      with es1 base show ?thesis by auto
    next
      case True
      obtain refreshed st' where
        r: "refreshCopilotTokenOnError E (w_trace w1) (w_state w1) = (refreshed, st')"
        by (cases "refreshCopilotTokenOnError E (w_trace w1) (w_state w1)")
      let ?w2 = "emit Call_refresh (w1\<lparr>w_state := st'\<rparr>)"
      have t2: "w_trace ?w2 = w_trace w @ (es1 @ [Call_refresh])"
        by (simp add: es1(1))
      have q2: "requests_sent (es1 @ [Call_refresh]) = requests_sent es1"
        by (simp add: requests_sent_append)
      show ?thesis
      proof (cases refreshed)
        case False
        then have "snd (createChatCompletionsStream E payload w) = ?w2"
          by (simp add: ccs_first_401(1)[OF f True r])
        then show ?thesis
          using t2 q2 base es1(3) by (intro exI[of _ "es1 @ [Call_refresh]"]) simp
      next
        case yes: True
        obtain res2 w3 where d2: "doFetch E payload (Some True) ?w2 = (res2, w3)"
          by (cases "doFetch E payload (Some True) ?w2")
        from doFetch_new[OF d2] obtain es2 where
          es2: "w_trace w3 = w_trace ?w2 @ es2"
               "set (requests_sent es2) \<subseteq> {doFetch_request E (w_state ?w2) payload (Some True)}"
          by blast
        have "snd (createChatCompletionsStream E payload w) = w3"
          using ccs_first_401(2)[OF f True r yes] d2 by (cases res2) simp_all
        moreover have "w_trace w3 = w_trace w @ (es1 @ [Call_refresh] @ es2)"
          using es2(1) t2 by simp
        moreover have "\<forall>r \<in> set (requests_sent (es1 @ [Call_refresh] @ es2)).
                         \<exists>st. r = doFetch_request E st payload (Some True)"
          using base es2(2) by (auto simp: requests_sent_append)
        moreover have "truthy_string (copilotToken (w_state w)) \<longrightarrow>
                         requests_sent (es1 @ [Call_refresh] @ es2) \<noteq> []"
          using es1(3) by (simp add: requests_sent_append)
        ultimately show ?thesis by (intro exI[of _ "es1 @ [Call_refresh] @ es2"]) simp
      qed
    qed
  qed
qed

lemma ccs_requests:
  assumes "r \<in> set (requests_sent (new_effects w (snd (createChatCompletionsStream E payload w))))"
  shows "\<exists>st. r = doFetch_request E st payload (Some True)"
proof -
  from ccs_new[of E payload w] obtain es where
    es: "w_trace (snd (createChatCompletionsStream E payload w)) = w_trace w @ es"
        "\<forall>r \<in> set (requests_sent es). \<exists>st. r = doFetch_request E st payload (Some True)"
    by blast
  from assms show ?thesis by (simp add: new_effects_append[OF es(1)] es(2))
qed

lemma ccs_sends:
  assumes "truthy_string (copilotToken (w_state w))"
  shows "requests_sent (new_effects w (snd (createChatCompletionsStream E payload w))) \<noteq> []"
proof -
  from ccs_new[of E payload w] obtain es where
    es: "w_trace (snd (createChatCompletionsStream E payload w)) = w_trace w @ es"
        "truthy_string (copilotToken (w_state w)) \<longrightarrow> requests_sent es \<noteq> []"
    by blast
  from assms show ?thesis by (simp add: new_effects_append[OF es(1)] es(2))
qed

text \<open>The payload \<open>handleCompletion\<close> passes on: only \<open>max_tokens\<close> may differ.\<close>

lemma handleCompletion_rejected:
  assumes "\<not> (checkRateLimit E (w_state w) = None
      \<and> (manualApprove (w_state w) \<longrightarrow> awaitApproval E (w_trace w) = None))"
  shows "snd (handleCompletion E payload w) = w"
  using assms by (auto simp: handleCompletion_def Let_def split: option.splits)

lemma handleCompletion_admitted:
  assumes "checkRateLimit E (w_state w) = None"
      and "manualApprove (w_state w) \<longrightarrow> awaitApproval E (w_trace w) = None"
  shows "\<exists>mt. snd (handleCompletion E payload w) =
           snd (createChatCompletionsStream E (payload\<lparr>p_max_tokens := mt\<rparr>) w)"
proof -
  let ?mt = "if p_max_tokens payload = None
             then (case find (\<lambda>m. m_id m = p_model payload)
                          (case models (w_state w) of None \<Rightarrow> [] | Some ms \<Rightarrow> ms) of
                     None \<Rightarrow> None | Some m \<Rightarrow> m_max_output_tokens m)
             else p_max_tokens payload"
  have p: "(if p_max_tokens payload = None
            then payload\<lparr>p_max_tokens :=
                   (case find (\<lambda>m. m_id m = p_model payload)
                          (case models (w_state w) of None \<Rightarrow> [] | Some ms \<Rightarrow> ms) of
                     None \<Rightarrow> None | Some m \<Rightarrow> m_max_output_tokens m)\<rparr>
            else payload) = payload\<lparr>p_max_tokens := ?mt\<rparr>"
    by simp
  have "snd (handleCompletion E payload w) =
          snd (createChatCompletionsStream E (payload\<lparr>p_max_tokens := ?mt\<rparr>) w)"
    using assms
    by (simp only: handleCompletion_def Let_def p)
       (auto split: option.splits prod.splits sum.splits)
  then show ?thesis by blast
qed

lemma handleCompletion_requests:
  assumes "r \<in> set (requests_sent (new_effects w (snd (handleCompletion E payload w))))"
  shows "\<exists>st mt. r = doFetch_request E st (payload\<lparr>p_max_tokens := mt\<rparr>) (Some True)"
proof (cases "checkRateLimit E (w_state w) = None
      \<and> (manualApprove (w_state w) \<longrightarrow> awaitApproval E (w_trace w) = None)")
  case False
  with assms show ?thesis by (simp add: handleCompletion_rejected new_effects_def)
next
  case True
  then obtain mt where "snd (handleCompletion E payload w) =
             snd (createChatCompletionsStream E (payload\<lparr>p_max_tokens := mt\<rparr>) w)"
    using handleCompletion_admitted[of E w payload] by blast
  with assms ccs_requests[of r w E "payload\<lparr>p_max_tokens := mt\<rparr>"] show ?thesis by auto
qed

lemma handleCompletion_sends:
  assumes "checkRateLimit E (w_state w) = None"
      and "manualApprove (w_state w) \<longrightarrow> awaitApproval E (w_trace w) = None"
      and "truthy_string (copilotToken (w_state w))"
  shows "requests_sent (new_effects w (snd (handleCompletion E payload w))) \<noteq> []"
proof -
  from handleCompletion_admitted[OF assms(1,2)] obtain mt where
    "snd (handleCompletion E payload w) =
       snd (createChatCompletionsStream E (payload\<lparr>p_max_tokens := mt\<rparr>) w)"
    by blast
  then show ?thesis using ccs_sends[OF assms(3)] by simp
qed

lemma example_env_fields:
  "checkRateLimit (example_env b t) st = None"
  "awaitApproval (example_env b t) tr = None"
  "runtime_JSON_parse (example_env b t) = example_parser"
  by (simp_all add: example_env_def)

lemma example_world_fields:
  "copilotToken (w_state (example_world tok)) = Some tok"
  "models (w_state (example_world tok)) = None"
  "manualApprove (w_state (example_world tok)) = False"
  "w_trace (example_world tok) = []"
  by (simp_all add: example_world_def)

lemma example_handleCompletion_requests:
  "requests_sent (new_effects (example_world ''good'')
     (snd (handleCompletion (example_env True ''good'') (example_payload flag)
             (example_world ''good'')))) = [example_request ''good'']"
proof -
  have p: "(example_payload flag)\<lparr>p_max_tokens := None\<rparr> = example_payload flag"
    by (simp add: example_payload_def)
  have d: "doFetch (example_env True ''good'') (example_payload flag) (Some True)
             (example_world ''good'') =
           (Inr \<lparr>status = 200, body = [event (text_json ''Hello''), event ''[DONE]'']\<rparr>,
            \<lparr>w_state = \<lparr>copilotToken = Some ''good'', models = None, manualApprove = False\<rparr>,
             w_trace = [Call_doFetch, Call_fetch (example_request ''good'')]\<rparr>)"
    using example_doFetch[where tok = "''good''" and tr = "[]" and b = True and t = "''good''"
            and flag = flag]
    by (simp add: example_world_def)
  have c: "createChatCompletionsStream (example_env True ''good'') (example_payload flag)
             (example_world ''good'') =
           (Inr [event (text_json ''Hello''), event ''[DONE]''],
            \<lparr>w_state = \<lparr>copilotToken = Some ''good'', models = None, manualApprove = False\<rparr>,
             w_trace = [Call_doFetch, Call_fetch (example_request ''good'')]\<rparr>)"
    using ccs_first_other[OF d] by (simp add: ok_def)
  have "snd (handleCompletion (example_env True ''good'') (example_payload flag)
             (example_world ''good'')) =
        \<lparr>w_state = \<lparr>copilotToken = Some ''good'', models = None, manualApprove = False\<rparr>,
         w_trace = [Call_doFetch, Call_fetch (example_request ''good'')]\<rparr>"
    by (simp add: handleCompletion_def Let_def example_env_fields example_world_fields p c
          split: sum.splits)
  then show ?thesis by (simp add: new_effects_def example_world_fields)
qed


text \<open>
  Claim C6. Every request that \<open>handleCompletion\<close> sends upstream, and every request
  that \<open>createChatCompletionsStream\<close> sends, first attempt or retry, has \<open>stream\<close>
  set to \<open>true\<close> in its body, whatever the client's payload says; and a request is
  sent whenever the admission control lets the client's request pass and a credential
  is present.
\<close>

theorem upstream_request_always_streams:
  "(\<forall>r \<in> set (requests_sent (new_effects w (snd (handleCompletion E payload w)))).
      p_stream (req_body r) = Some True)
   \<and> (\<forall>r \<in> set (requests_sent (new_effects w (snd (createChatCompletionsStream E payload w)))).
      p_stream (req_body r) = Some True)
   \<and> (checkRateLimit E (w_state w) = None
        \<and> (manualApprove (w_state w) \<longrightarrow> awaitApproval E (w_trace w) = None)
        \<and> truthy_string (copilotToken (w_state w)) \<longrightarrow>
      requests_sent (new_effects w (snd (handleCompletion E payload w))) \<noteq> [])"
proof (intro conjI ballI impI)
  fix r
  assume "r \<in> set (requests_sent (new_effects w (snd (handleCompletion E payload w))))"
  then obtain st mt where "r = doFetch_request E st (payload\<lparr>p_max_tokens := mt\<rparr>) (Some True)"
    using handleCompletion_requests by blast
  then show "p_stream (req_body r) = Some True"
    by (simp add: doFetch_request_body)
next
  fix r
  assume "r \<in> set (requests_sent (new_effects w (snd (createChatCompletionsStream E payload w))))"
  then obtain st where "r = doFetch_request E st payload (Some True)"
    using ccs_requests by blast
  then show "p_stream (req_body r) = Some True"
    by (simp add: doFetch_request_body)
next
  assume "checkRateLimit E (w_state w) = None
        \<and> (manualApprove (w_state w) \<longrightarrow> awaitApproval E (w_trace w) = None)
        \<and> truthy_string (copilotToken (w_state w))"
  then show "requests_sent (new_effects w (snd (handleCompletion E payload w))) \<noteq> []"
    using handleCompletion_sends[of E w payload] by blast
qed

theorem upstream_request_always_streams_witness:
  "requests_sent (new_effects (example_world ''good'')
     (snd (handleCompletion (example_env True ''good'') (example_payload None)
             (example_world ''good'')))) = [example_request ''good'']
   \<and> requests_sent (new_effects (example_world ''good'')
     (snd (handleCompletion (example_env True ''good'') (example_payload (Some False))
             (example_world ''good'')))) = [example_request ''good'']
   \<and> requests_sent (new_effects (example_world ''good'')
     (snd (handleCompletion (example_env True ''good'') (example_payload (Some True))
             (example_world ''good'')))) = [example_request ''good'']
   \<and> p_stream (example_payload None) = None
   \<and> p_stream (example_payload (Some False)) = Some False
   \<and> p_stream (req_body (example_request ''good'')) = Some True"
proof -
  note t = upstream_request_always_streams
      [where E = "example_env True ''good''" and payload = "example_payload None"
         and w = "example_world ''good''", THEN conjunct1, rule_format,
       of "example_request ''good''"]
  have "p_stream (req_body (example_request ''good'')) = Some True"
    by (rule t) (simp add: example_handleCompletion_requests)
  then show ?thesis
    by (intro conjI example_handleCompletion_requests) (simp_all add: example_payload_def)
qed




end
